theory Spec2Isabelle
  imports Complex_Main "HOL-Library.Word"
begin

section \<open>Liar's Poker: the rule engine of the \<open>liars\<close> package\<close>

text \<open>
  The development follows the Python sources \<^verbatim>\<open>action.py\<close>, \<^verbatim>\<open>number.py\<close> and
  \<^verbatim>\<open>game.py\<close>. Exceptions are values of the type \<open>error\<close>; a function that may raise
  returns \<open>error + 'a\<close>, and a loop that may run forever returns an \<open>option\<close> on top of
  it, where \<open>None\<close> stands for a call that never returns.
\<close>

subsection \<open>Exceptions\<close>

datatype error =
    InvalidClaim \<comment> \<open>\<^verbatim>\<open>ValueError\<close> raised by \<^verbatim>\<open>Action.__post_init__\<close>\<close>
  | ActionAfterTerminal \<comment> \<open>\<^verbatim>\<open>ValueError\<close> of \<^verbatim>\<open>ensure_valid_raise\<close>: the previous action is no bet\<close>
  | InvalidRaise \<comment> \<open>\<^verbatim>\<open>ValueError\<close> of \<^verbatim>\<open>ensure_valid_raise\<close>: neither digit nor count went up\<close>
  | FirstMoveNotBet \<comment> \<open>\<^verbatim>\<open>RuntimeError\<close> of \<^verbatim>\<open>Game.play\<close>\<close>
  | TypeError \<comment> \<open>an order comparison or an index with \<^verbatim>\<open>None\<close>\<close>
  | IndexError \<comment> \<open>an index outside a NumPy array\<close>
  | StopIteration \<comment> \<open>\<^verbatim>\<open>next\<close> on \<^verbatim>\<open>itertools.cycle\<close> of an empty sequence\<close>
  | RandintEmptyRange \<comment> \<open>\<^verbatim>\<open>ValueError\<close> of \<^verbatim>\<open>np.random.randint(0)\<close>\<close>
  | AmbiguousTruthValue \<comment> \<open>\<^verbatim>\<open>ValueError\<close> of NumPy: the truth value of an array with several elements\<close>

subsection \<open>\<^verbatim>\<open>action.py\<close>\<close>

text \<open>The frozen dataclass \<^verbatim>\<open>Action\<close> with its five fields.\<close>

record Action =
  is_exact :: bool
  is_bullshit :: bool
  is_bet :: bool
  count :: "int option"
  digit :: "int option"

text \<open>
  \<^verbatim>\<open>Action.__post_init__\<close>: exactly one of the three flags, and for a bet a count of at
  least 1 and a digit in \<open>[0, 9]\<close>. Every check raises \<^verbatim>\<open>ValueError\<close>.
\<close>

definition post_init :: "Action \<Rightarrow> error + unit" where
  "post_init a =
     (if \<not> (of_bool (is_exact a) + of_bool (is_bullshit a) + of_bool (is_bet a) = (1::nat))
      then Inl InvalidClaim
      else if is_bet a then
        (case count a of
           None \<Rightarrow> Inl InvalidClaim
         | Some c \<Rightarrow>
             (case digit a of
                None \<Rightarrow> Inl InvalidClaim
              | Some d \<Rightarrow>
                  if c \<le> 0 then Inl InvalidClaim
                  else if \<not> (0 \<le> d \<and> d \<le> 9) then Inl InvalidClaim
                  else Inr ()))
      else Inr ())"

text \<open>The dataclass constructor: build the object, then run \<^verbatim>\<open>__post_init__\<close>.\<close>

definition new_Action :: "bool \<Rightarrow> bool \<Rightarrow> bool \<Rightarrow> int option \<Rightarrow> int option \<Rightarrow> error + Action" where
  "new_Action e b t c d =
     (let a = \<lparr>is_exact = e, is_bullshit = b, is_bet = t, count = c, digit = d\<rparr>
      in case post_init a of Inl err \<Rightarrow> Inl err | Inr _ \<Rightarrow> Inr a)"

definition make_bet :: "int \<Rightarrow> int \<Rightarrow> error + Action" where
  "make_bet c d = new_Action False False True (Some c) (Some d)"

definition make_bullshit :: "error + Action" where
  "make_bullshit = new_Action False True False None None"

definition make_exact :: "error + Action" where
  "make_exact = new_Action True False False None None"

text \<open>Python's \<^verbatim>\<open>a > b\<close> on optional integers: \<^verbatim>\<open>None\<close> on either side raises \<^verbatim>\<open>TypeError\<close>.\<close>

fun py_gt :: "int option \<Rightarrow> int option \<Rightarrow> error + bool" where
  "py_gt (Some a) (Some b) = Inr (a > b)"
| "py_gt _ _ = Inl TypeError"

text \<open>
  \<^verbatim>\<open>ensure_valid_raise\<close> returns \<^verbatim>\<open>True\<close> without a previous bet and \<^verbatim>\<open>None\<close> after a valid
  raise (the result \<open>bool option\<close>); \<^verbatim>\<open>or\<close> evaluates its right operand only when the left
  one is false.
\<close>

definition ensure_valid_raise :: "Action \<Rightarrow> Action option \<Rightarrow> error + bool option" where
  "ensure_valid_raise bet previous_bet =
     (case previous_bet of
        None \<Rightarrow> Inr (Some True)
      | Some p \<Rightarrow>
          if \<not> is_bet p then Inl ActionAfterTerminal
          else
            (case py_gt (digit bet) (digit p) of
               Inl err \<Rightarrow> Inl err
             | Inr digit_up \<Rightarrow>
                 if digit_up then Inr None
                 else
                   (case py_gt (count bet) (count p) of
                      Inl err \<Rightarrow> Inl err
                    | Inr count_up \<Rightarrow> if count_up then Inr None else Inl InvalidRaise)))"

subsection \<open>\<^verbatim>\<open>number.py\<close>\<close>

definition NUM_DIGITS :: nat where
  "NUM_DIGITS = 8"

text \<open>The decimal numeral of a natural number, most significant digit first.\<close>

definition digit_char :: "nat \<Rightarrow> char" where
  "digit_char d = ''0123456789'' ! (d mod 10)"

function decimal :: "nat \<Rightarrow> string" where
  "decimal n = (if n < 10 then [digit_char n] else decimal (n div 10) @ [digit_char (n mod 10)])"
  by pat_completeness auto
termination
  by (relation "measure id") auto

declare decimal.simps [simp del]

text \<open>\<^verbatim>\<open>format(number, "08d")\<close>: the numeral, padded with zeros on the left to eight characters.\<close>

definition to_str :: "nat \<Rightarrow> string" where
  "to_str number = (let s = decimal number in replicate (NUM_DIGITS - length s) CHR ''0'' @ s)"

text \<open>
  \<^verbatim>\<open>int\<close> on a one-character string. It raises on a character that is no digit; every
  character of \<open>to_str\<close> is a digit (lemma \<open>to_str_digits\<close>), so the model is a plain
  function.
\<close>

definition int_of_char :: "char \<Rightarrow> nat" where
  "int_of_char c = of_char c - of_char CHR ''0''"

text \<open>
  \<^verbatim>\<open>to_counts\<close>: ten counters of type \<^verbatim>\<open>np.uint8\<close>, one increment per character. The
  increment wraps around at 256.
\<close>

definition to_counts :: "nat \<Rightarrow> 8 word list" where
  "to_counts number =
     fold (\<lambda>c counts. counts[int_of_char c := counts ! int_of_char c + 1])
       (to_str number) (replicate 10 0)"

text \<open>
  \<^verbatim>\<open>np.sum([to_counts(number) for number in numbers], axis=0)\<close>: the sum of the vectors, entry
  by entry. NumPy adds \<^verbatim>\<open>uint8\<close> entries in the 64-bit unsigned integer of the platform; an
  entry is at most the number of characters of a row, and an array of \<open>2 ^ 64\<close> bytes does
  not fit an address space, so this sum never wraps and the model takes it in \<open>nat\<close>.
\<close>

definition total_counts :: "nat list \<Rightarrow> nat list" where
  "total_counts numbers =
     map (\<lambda>d. sum_list (map (\<lambda>number. unat (to_counts number ! d)) numbers)) [0..<10]"

subsection \<open>The collaborators of the engine\<close>

text \<open>
  The move log \<^verbatim>\<open>GameState\<close>: one entry \<^verbatim>\<open>(player_id, duration, action)\<close> for each move.
\<close>

type_synonym GameState = "(nat \<times> real \<times> Action) list"

text \<open>
  The players and NumPy's random generator are outside the engine: they have state of their
  own and may draw random numbers. The model threads one opaque state \<open>'w\<close> through every
  call to them. \<open>randint lo hi\<close> is \<^verbatim>\<open>np.random.randint(lo, hi)\<close>; the other three fields are
  the methods of \<^verbatim>\<open>PlayerInterface\<close> that \<^verbatim>\<open>Game.play\<close> calls, with the index of the player
  as first argument. A game is an environment together with the number \<open>n\<close> of its
  players.
\<close>

record 'w env =
  randint :: "nat \<Rightarrow> nat \<Rightarrow> 'w \<Rightarrow> nat \<times> 'w"
  start_game :: "nat \<Rightarrow> nat \<Rightarrow> nat \<Rightarrow> 'w \<Rightarrow> 'w"
  make_move :: "nat \<Rightarrow> GameState \<Rightarrow> 'w \<Rightarrow> (real \<times> Action) \<times> 'w"
  end_game :: "nat \<Rightarrow> int \<Rightarrow> GameState \<Rightarrow> nat list \<Rightarrow> 'w \<Rightarrow> 'w"

text \<open>NumPy returns a value of the half-open range it is asked for.\<close>

definition randint_in_range :: "'w env \<Rightarrow> bool" where
  "randint_in_range env \<longleftrightarrow>
     (\<forall>lo hi w. lo < hi \<longrightarrow> lo \<le> fst (randint env lo hi w) \<and> fst (randint env lo hi w) < hi)"

subsection \<open>\<^verbatim>\<open>number.py\<close>: random numbers\<close>

definition get_random_number :: "'w env \<Rightarrow> 'w \<Rightarrow> nat \<times> 'w" where
  "get_random_number env w = randint env 0 (10 ^ NUM_DIGITS) w"

text \<open>
  The Python set \<^verbatim>\<open>numbers\<close> is a list without repetition, in the order of insertion;
  \<^verbatim>\<open>numbers.add\<close> leaves it as it is when the element is there already. The order in
  which \<^verbatim>\<open>list(numbers)\<close> enumerates a set is left open by Python; the model takes the
  order of insertion.
\<close>

definition set_add :: "nat \<Rightarrow> nat list \<Rightarrow> nat list" where
  "set_add x numbers = (if x \<in> set numbers then numbers else numbers @ [x])"

partial_function (option) get_random_numbers_loop ::
  "'w env \<Rightarrow> nat \<Rightarrow> nat list \<Rightarrow> 'w \<Rightarrow> (nat list \<times> 'w) option" where
  "get_random_numbers_loop env n numbers w =
     (if length numbers < n then
        (case get_random_number env w of
           (x, w') \<Rightarrow> get_random_numbers_loop env n (set_add x numbers) w')
      else Some (numbers, w))"

declare get_random_numbers_loop.simps [code]

definition get_random_numbers :: "'w env \<Rightarrow> nat \<Rightarrow> 'w \<Rightarrow> (nat list \<times> 'w) option" where
  "get_random_numbers env n w = get_random_numbers_loop env n [] w"

subsection \<open>\<^verbatim>\<open>game.py\<close>\<close>

text \<open>
  \<^verbatim>\<open>player_generator\<close> is \<^verbatim>\<open>itertools.cycle(enumerate(players))\<close>, created once for the game
  and shared by all its rounds. Its state is the number \<open>pos\<close> of items taken so far: the
  next item is the player \<open>pos mod n\<close>, and with no players \<^verbatim>\<open>next\<close> raises \<^verbatim>\<open>StopIteration\<close>.
\<close>

text \<open>The first mover (lines 83 to 86 of \<^verbatim>\<open>game.py\<close>).\<close>

definition choose_first :: "'w env \<Rightarrow> nat \<Rightarrow> int option \<Rightarrow> 'w \<Rightarrow> error + (int \<times> 'w)" where
  "choose_first env n first_move w =
     (case first_move of
        Some f \<Rightarrow> Inr (f, w)
      | None \<Rightarrow>
          if n = 0 then Inl RandintEmptyRange
          else (case randint env 0 n w of (r, w') \<Rightarrow> Inr (int r, w')))"

text \<open>The loop that moves the generator to the first mover (lines 88 to 91).\<close>

partial_function (option) fast_forward :: "nat \<Rightarrow> int \<Rightarrow> nat \<Rightarrow> (error + nat) option" where
  "fast_forward n first_idx pos =
     (if n = 0 then Some (Inl StopIteration)
      else if int ((pos mod n + 1) mod n) = first_idx then Some (Inr (pos + 1))
      else fast_forward n first_idx (pos + 1))"

declare fast_forward.simps [code]

text \<open>
  \<^verbatim>\<open>total_counts[digit]\<close> on the NumPy vector: a negative index counts from the end, an index
  out of range raises \<^verbatim>\<open>IndexError\<close>. With \<^verbatim>\<open>None\<close> NumPy returns a two-dimensional view,
  and the \<^verbatim>\<open>if\<close> on the comparison with it raises (\<open>AmbiguousTruthValue\<close>).
\<close>

definition np_getitem :: "nat list \<Rightarrow> int option \<Rightarrow> error + nat" where
  "np_getitem xs i =
     (case i of
        None \<Rightarrow> Inl AmbiguousTruthValue
      | Some d \<Rightarrow>
          (let len = int (length xs); j = (if d < 0 then len + d else d)
           in if 0 \<le> j \<and> j < len then Inr (xs ! nat j) else Inl IndexError))"

text \<open>\<^verbatim>\<open>count == actual\<close>: \<^verbatim>\<open>None\<close> is equal to no number.\<close>

fun py_eq :: "int option \<Rightarrow> nat \<Rightarrow> bool" where
  "py_eq (Some c) actual = (c = int actual)"
| "py_eq None actual = False"

text \<open>The result a player is told: 1 is a win, 0 a loss, -1 a tie (lines 145 to 150).\<close>

definition result_of :: "int \<Rightarrow> nat \<Rightarrow> int" where
  "result_of winner_idx idx = (if winner_idx = -1 then -1 else if winner_idx = int idx then 1 else 0)"

text \<open>
  The core game loop (lines 101 to 139). \<open>prev\<close> is the pair \<^verbatim>\<open>(prev_idx, prev_action)\<close>,
  \<open>None\<close> while both are \<^verbatim>\<open>None\<close>. The loop returns the winner, the log, the position of
  the generator and the state of the collaborators.
\<close>

partial_function (option) game_loop ::
  "'w env \<Rightarrow> nat \<Rightarrow> nat list \<Rightarrow> nat \<Rightarrow> GameState \<Rightarrow> (nat \<times> Action) option \<Rightarrow> 'w
     \<Rightarrow> (error + (int \<times> GameState \<times> nat \<times> 'w)) option" where
  "game_loop env n totals pos game_state prev w =
     (if n = 0 then Some (Inl StopIteration)
      else
        (let idx = pos mod n in
         case make_move env idx game_state w of
           ((elapsed, action), w') \<Rightarrow>
             (let game_state' = game_state @ [(idx, elapsed, action)] in
              if is_bet action then
                (case ensure_valid_raise action (map_option snd prev) of
                   Inl err \<Rightarrow> Some (Inl err)
                 | Inr _ \<Rightarrow> game_loop env n totals (pos + 1) game_state' (Some (idx, action)) w')
              else
                (case prev of
                   None \<Rightarrow> Some (Inl FirstMoveNotBet)
                 | Some (prev_idx, prev_action) \<Rightarrow>
                     (case np_getitem totals (digit prev_action) of
                        Inl err \<Rightarrow> Some (Inl err)
                      | Inr actual \<Rightarrow>
                          if is_exact action then
                            (if py_eq (count prev_action) actual
                             then Some (Inr (- 1, game_state', pos + 1, w'))
                             else Some (Inr (int prev_idx, game_state', pos + 1, w')))
                          else
                            (case py_gt (count prev_action) (Some (int actual)) of
                               Inl err \<Rightarrow> Some (Inl err)
                             | Inr overstated \<Rightarrow>
                                 if overstated
                                 then Some (Inr (int idx, game_state', pos + 1, w'))
                                 else Some (Inr (int prev_idx, game_state', pos + 1, w'))))))))"

declare game_loop.simps [code]

text \<open>
  What a finished round leaves behind: the value \<^verbatim>\<open>play\<close> returns (\<open>r_winner_idx\<close>), the
  results passed to \<^verbatim>\<open>end_game\<close> in the order of the players, the final log, the numbers,
  the argument \<^verbatim>\<open>first_move\<close> and the local variable \<^verbatim>\<open>first_idx\<close>, the position of the
  generator and the state of the collaborators.
\<close>

record 'w round =
  r_winner_idx :: int
  r_results :: "int list"
  r_game_state :: GameState
  r_numbers :: "nat list"
  r_first_move :: "int option"
  r_first_idx :: int
  r_pos :: nat
  r_world :: 'w

text \<open>The round from a state of the game loop onwards: the loop, then the notifications (lines 144 to 157).\<close>

definition play_from ::
  "'w env \<Rightarrow> nat \<Rightarrow> nat list \<Rightarrow> int option \<Rightarrow> int \<Rightarrow> nat \<Rightarrow> GameState \<Rightarrow> (nat \<times> Action) option \<Rightarrow> 'w
     \<Rightarrow> (error + 'w round) option" where
  "play_from env n numbers first_move first_idx pos game_state prev w =
     (case game_loop env n (total_counts numbers) pos game_state prev w of
        None \<Rightarrow> None
      | Some (Inl err) \<Rightarrow> Some (Inl err)
      | Some (Inr (winner_idx, game_state', pos', w')) \<Rightarrow>
          Some (Inr \<lparr>r_winner_idx = winner_idx,
            r_results = map (result_of winner_idx) [0..<n],
            r_game_state = game_state',
            r_numbers = numbers,
            r_first_move = first_move,
            r_first_idx = first_idx,
            r_pos = pos',
            r_world =
              fold (\<lambda>idx. end_game env idx (result_of winner_idx idx) game_state' numbers) [0..<n] w'\<rparr>))"

text \<open>The numbers of the round, and each player told its own (lines 76 to 80).\<close>

definition assign_numbers :: "'w env \<Rightarrow> nat \<Rightarrow> 'w \<Rightarrow> (nat list \<times> 'w) option" where
  "assign_numbers env n w =
     (case get_random_numbers env n w of
        None \<Rightarrow> None
      | Some (numbers, w1) \<Rightarrow>
          Some (numbers, fold (\<lambda>idx. start_game env idx (numbers ! idx) n) [0..<n] w1))"

text \<open>\<^verbatim>\<open>Game.play\<close>.\<close>

definition play :: "'w env \<Rightarrow> nat \<Rightarrow> int option \<Rightarrow> nat \<Rightarrow> 'w \<Rightarrow> (error + 'w round) option" where
  "play env n first_move pos w =
     (case assign_numbers env n w of
        None \<Rightarrow> None
      | Some (numbers, w2) \<Rightarrow>
          (case choose_first env n first_move w2 of
             Inl err \<Rightarrow> Some (Inl err)
           | Inr (first_idx, w3) \<Rightarrow>
               (case fast_forward n first_idx pos of
                  None \<Rightarrow> None
                | Some (Inl err) \<Rightarrow> Some (Inl err)
                | Some (Inr pos1) \<Rightarrow>
                    play_from env n numbers first_move first_idx pos1 [] None w3)))"



subsection \<open>The bets of a round\<close>

text \<open>The action of the last entry of the log, \<open>None\<close> for the empty log.\<close>

definition last_bet :: "GameState \<Rightarrow> Action option" where
  "last_bet game_state = (if game_state = [] then None else Some (snd (snd (last game_state))))"

text \<open>
  What the players do in the betting phase of a round. The game loop starts with the
  generator at \<open>pos0\<close> and the collaborators in state \<open>w0\<close>.
  \<open>betting env n pos0 w0 pos game_state w\<close> says that the players, asked in turn, have
  so far answered with the bets logged in \<open>game_state\<close>, each a valid raise of the bet
  logged before it, and that the generator is now at \<open>pos\<close> and the collaborators are in
  state \<open>w\<close>.
\<close>

inductive betting :: "'w env \<Rightarrow> nat \<Rightarrow> nat \<Rightarrow> 'w \<Rightarrow> nat \<Rightarrow> GameState \<Rightarrow> 'w \<Rightarrow> bool"
  for env :: "'w env" and n :: nat and pos0 :: nat and w0 :: 'w where
  start: "betting env n pos0 w0 pos0 [] w0"
| bet: "betting env n pos0 w0 pos game_state w \<Longrightarrow> 0 < n \<Longrightarrow>
    make_move env (pos mod n) game_state w = ((elapsed, action), w') \<Longrightarrow>
    is_bet action \<Longrightarrow>
    ensure_valid_raise action (last_bet game_state) = Inr v \<Longrightarrow>
    betting env n pos0 w0 (pos + 1) (game_state @ [(pos mod n, elapsed, action)]) w'"

subsection \<open>Concrete environments\<close>

text \<open>
  A scripted environment: its state is the list of the random numbers still to be drawn and
  the list of the moves still to be made. When a list is used up, \<open>randint\<close> returns the
  lower bound and the player calls Bullshit. Every move takes no time.
\<close>

definition Bet :: "int \<Rightarrow> int \<Rightarrow> Action" where
  "Bet c d = \<lparr>is_exact = False, is_bullshit = False, is_bet = True, count = Some c, digit = Some d\<rparr>"

definition Exact :: Action where
  "Exact = \<lparr>is_exact = True, is_bullshit = False, is_bet = False, count = None, digit = None\<rparr>"

definition Bullshit :: Action where
  "Bullshit = \<lparr>is_exact = False, is_bullshit = True, is_bet = False, count = None, digit = None\<rparr>"

definition scripted :: "(nat list \<times> Action list) env" where
  "scripted =
     \<lparr>randint = (\<lambda>lo hi (draws, moves).
          case draws of [] \<Rightarrow> (lo, (draws, moves)) | d # draws' \<Rightarrow> (d, (draws', moves))),
      start_game = (\<lambda>idx number n_players w. w),
      make_move = (\<lambda>idx game_state (draws, moves).
          case moves of [] \<Rightarrow> ((0, Bullshit), (draws, moves)) | m # moves' \<Rightarrow> ((0, m), (draws, moves'))),
      end_game = (\<lambda>idx result game_state numbers w. w)\<rparr>"

text \<open>
  An environment whose generator runs through its range again and again: the \<open>k\<close>-th draw
  from \<open>[lo, hi)\<close> is \<open>lo + k mod (hi - lo)\<close>. Its players call Bullshit at once.
\<close>

definition cycling :: "nat env" where
  "cycling =
     \<lparr>randint = (\<lambda>lo hi k. (lo + k mod (hi - lo), k + 1)),
      start_game = (\<lambda>idx number n_players w. w),
      make_move = (\<lambda>idx game_state w. ((0, Bullshit), w)),
      end_game = (\<lambda>idx result game_state numbers w. w)\<rparr>"

text \<open>
  The scripted environment with a record of the notifications: its state holds, as a third
  component, the pairs of player and result that \<^verbatim>\<open>end_game\<close> was called with, in the order of
  the calls.
\<close>

definition recording :: "(nat list \<times> Action list \<times> (nat \<times> int) list) env" where
  "recording =
     \<lparr>randint = (\<lambda>lo hi (draws, moves, notes).
          case draws of [] \<Rightarrow> (lo, (draws, moves, notes)) | d # draws' \<Rightarrow> (d, (draws', moves, notes))),
      start_game = (\<lambda>idx number n_players w. w),
      make_move = (\<lambda>idx game_state (draws, moves, notes).
          case moves of
            [] \<Rightarrow> ((0, Bullshit), (draws, moves, notes))
          | m # moves' \<Rightarrow> ((0, m), (draws, moves', notes))),
      end_game = (\<lambda>idx result game_state numbers (draws, moves, notes).
          (draws, moves, notes @ [(idx, result)]))\<rparr>"

section \<open>Properties\<close>

subsection \<open>The raise rule\<close>

lemma make_bet_Inr:
  "make_bet c d = Inr a \<longleftrightarrow>
     (0 < c \<and> 0 \<le> d \<and> d \<le> 9 \<and>
      a = \<lparr>is_exact = False, is_bullshit = False, is_bet = True, count = Some c, digit = Some d\<rparr>)"
  by (auto simp: make_bet_def new_Action_def post_init_def)

text \<open>
  Claim C4. For two well-formed bets, \<open>ensure_valid_raise\<close> succeeds exactly when the digit
  or the count of the new bet is strictly larger, and raises the \<open>InvalidRaise\<close> error
  otherwise; a larger digit with a smaller count and a larger count with a smaller digit
  are accepted; without a previous bet every well-formed bet is accepted.
\<close>

theorem ensure_valid_raise_iff:
  assumes "make_bet c2 d2 = Inr newBet" and "make_bet c1 d1 = Inr previousBet"
  shows "((\<exists>v. ensure_valid_raise newBet (Some previousBet) = Inr v) \<longleftrightarrow> (d2 > d1 \<or> c2 > c1))
    \<and> (\<not> (d2 > d1 \<or> c2 > c1) \<longrightarrow> ensure_valid_raise newBet (Some previousBet) = Inl InvalidRaise)
    \<and> (d2 > d1 \<and> c2 < c1 \<longrightarrow> ensure_valid_raise newBet (Some previousBet) = Inr None)
    \<and> (c2 > c1 \<and> d2 < d1 \<longrightarrow> ensure_valid_raise newBet (Some previousBet) = Inr None)
    \<and> ensure_valid_raise newBet None = Inr (Some True)"
  using assms by (auto simp: make_bet_Inr ensure_valid_raise_def)

theorem ensure_valid_raise_iff_witness:
  "make_bet 1 5 = Inr \<lparr>is_exact = False, is_bullshit = False, is_bet = True, count = Some 1, digit = Some 5\<rparr>
   \<and> make_bet 2 3 = Inr \<lparr>is_exact = False, is_bullshit = False, is_bet = True, count = Some 2, digit = Some 3\<rparr>
   \<and> ensure_valid_raise
        \<lparr>is_exact = False, is_bullshit = False, is_bet = True, count = Some 1, digit = Some 5\<rparr>
        (Some \<lparr>is_exact = False, is_bullshit = False, is_bet = True, count = Some 2, digit = Some 3\<rparr>)
       = Inr None"
proof -
  have n: "make_bet 1 5 = Inr \<lparr>is_exact = False, is_bullshit = False, is_bet = True, count = Some 1, digit = Some 5\<rparr>"
    by (simp add: make_bet_def new_Action_def post_init_def)
  have p: "make_bet 2 3 = Inr \<lparr>is_exact = False, is_bullshit = False, is_bet = True, count = Some 2, digit = Some 3\<rparr>"
    by (simp add: make_bet_def new_Action_def post_init_def)
  from ensure_valid_raise_iff [OF n p] n p show ?thesis by simp
qed

subsection \<open>Digit counts\<close>

lemma int_of_digit_index: "k < 10 \<Longrightarrow> int_of_char (''0123456789'' ! k) = k"
proof -
  assume "k < 10"
  then have "k \<in> {0, 1, 2, 3, 4, 5, 6, 7, 8, 9}"
    by auto
  then show ?thesis
    by (elim insertE emptyE) (simp_all add: int_of_char_def)
qed

lemma int_of_digit_char: "int_of_char (digit_char d) = d mod 10"
  by (simp add: digit_char_def int_of_digit_index)

lemma decimal_digits: "c \<in> set (decimal n) \<Longrightarrow> int_of_char c < 10"
proof (induction n rule: decimal.induct)
  case (1 n)
  show ?case
  proof (cases "n < 10")
    case True
    with "1.prems" show ?thesis
      by (simp add: decimal.simps [of n] int_of_digit_char)
  next
    case False
    with "1.prems" "1.IH" show ?thesis
      by (auto simp: decimal.simps [of n] int_of_digit_char)
  qed
qed

lemma length_decimal: "n < 10 ^ Suc k \<Longrightarrow> length (decimal n) \<le> Suc k"
proof (induction k arbitrary: n)
  case 0
  then show ?case by (simp add: decimal.simps [of n])
next
  case (Suc k)
  show ?case
  proof (cases "n < 10")
    case True
    then show ?thesis by (simp add: decimal.simps [of n])
  next
    case False
    from Suc.prems have "n div 10 < 10 ^ Suc k"
      by (simp add: less_mult_imp_div_less mult.commute)
    from Suc.IH [OF this] False show ?thesis
      by (simp add: decimal.simps [of n])
  qed
qed

lemma length_decimal_pos: "0 < length (decimal n)"
  by (subst decimal.simps) simp

lemma length_to_str: "n < 10 ^ NUM_DIGITS \<Longrightarrow> length (to_str n) = NUM_DIGITS"
  using length_decimal [of n 7] by (simp add: to_str_def NUM_DIGITS_def Let_def)

lemma to_str_digits: "c \<in> set (to_str n) \<Longrightarrow> int_of_char c < 10"
  by (auto simp: to_str_def Let_def int_of_char_def dest: decimal_digits)


lemma fold_counts:
  fixes counts :: "8 word list"
  assumes "\<forall>c \<in> set cs. int_of_char c < length counts"
    and "sum_list (map unat counts) + length cs < 256"
  shows "sum_list (map unat (fold (\<lambda>c counts. counts[int_of_char c := counts ! int_of_char c + 1]) cs counts))
       = sum_list (map unat counts) + length cs
     \<and> length (fold (\<lambda>c counts. counts[int_of_char c := counts ! int_of_char c + 1]) cs counts) = length counts"
  using assms
proof (induction cs arbitrary: counts)
  case Nil
  then show ?case by simp
next
  case (Cons c cs)
  let ?i = "int_of_char c"
  let ?next = "counts[?i := counts ! ?i + 1]"
  from Cons.prems have i: "?i < length counts" by simp
  have le: "unat (counts ! ?i) \<le> sum_list (map unat counts)"
    using i by (intro member_le_sum_list) simp_all
  with Cons.prems have "unat (counts ! ?i) + 1 < 256" by simp
  then have u: "unat (counts ! ?i + 1) = unat (counts ! ?i) + 1"
    by (simp add: unat_word_ariths)
  have s: "sum_list (map unat ?next) = sum_list (map unat counts) + 1"
    using i le by (simp add: map_update sum_list_update u)
  have "\<forall>c \<in> set cs. int_of_char c < length ?next" using Cons.prems by simp
  moreover have "sum_list (map unat ?next) + length cs < 256" using Cons.prems s by simp
  ultimately show ?case using Cons.IH [of ?next] s by simp
qed


lemma to_counts_sum_length:
  assumes "x < 10 ^ NUM_DIGITS"
  shows "sum_list (map unat (to_counts x)) = NUM_DIGITS \<and> length (to_counts x) = 10"
proof -
  have "\<forall>c \<in> set (to_str x). int_of_char c < length (replicate 10 (0::8 word))"
    by (simp add: to_str_digits)
  moreover have z: "sum_list (map unat (replicate 10 (0::8 word))) = 0"
    by (simp add: sum_list_replicate)
  moreover have "sum_list (map unat (replicate 10 (0::8 word))) + length (to_str x) < 256"
    unfolding z using length_to_str [OF assms] by (simp add: NUM_DIGITS_def)
  ultimately show ?thesis
    using fold_counts [of "to_str x" "replicate 10 0"] length_to_str [OF assms]
    by (simp add: to_counts_def)
qed

lemma total_counts_Cons:
  "total_counts (x # xs) =
     map (\<lambda>d. unat (to_counts x ! d) + sum_list (map (\<lambda>number. unat (to_counts number ! d)) xs)) [0..<10]"
  by (simp add: total_counts_def)

lemma sum_total_counts_Cons:
  assumes "length (to_counts x) = 10"
  shows "sum_list (total_counts (x # xs)) = sum_list (map unat (to_counts x)) + sum_list (total_counts xs)"
proof -
  have "map (\<lambda>d. unat (to_counts x ! d)) [0..<length (to_counts x)] = map unat (to_counts x)"
    by (rule nth_equalityI) simp_all
  then have "map (\<lambda>d. unat (to_counts x ! d)) [0..<10] = map unat (to_counts x)"
    using assms by simp
  then show ?thesis
    unfolding total_counts_Cons by (simp only: sum_list_addf total_counts_def)
qed

text \<open>
  Claim C7. For a number below \<open>10 ^ 8\<close> the ten entries of \<open>to_counts\<close> add up to 8, the
  width of the numeral; for a list of such numbers the entries of \<open>total_counts\<close> add up
  to 8 times the length of the list.
\<close>

theorem digit_counts_sum:
  "(x < 10 ^ 8 \<longrightarrow> sum_list (map unat (to_counts x)) = 8)
   \<and> ((\<forall>number \<in> set numbers. number < 10 ^ 8) \<longrightarrow>
        sum_list (total_counts numbers) = 8 * length numbers)"
proof
  show "x < 10 ^ 8 \<longrightarrow> sum_list (map unat (to_counts x)) = 8"
    using to_counts_sum_length [of x] by (simp add: NUM_DIGITS_def)
  show "(\<forall>number \<in> set numbers. number < 10 ^ 8) \<longrightarrow>
        sum_list (total_counts numbers) = 8 * length numbers"
  proof (induction numbers)
    case Nil
    show ?case by (simp add: total_counts_def)
  next
    case (Cons y ys)
    show ?case
    proof
      assume a: "\<forall>number \<in> set (y # ys). number < 10 ^ 8"
      then have "y < 10 ^ NUM_DIGITS" by (simp add: NUM_DIGITS_def)
      from to_counts_sum_length [OF this] sum_total_counts_Cons [of y ys] a Cons.IH
      show "sum_list (total_counts (y # ys)) = 8 * length (y # ys)"
        by (simp add: NUM_DIGITS_def)
    qed
  qed
qed

theorem digit_counts_sum_witness:
  "(12345678::nat) < 10 ^ 8 \<and> sum_list (map unat (to_counts 12345678)) = 8
   \<and> (77700000::nat) < 10 ^ 8 \<and> (77000000::nat) < 10 ^ 8
   \<and> sum_list (total_counts [77700000, 77000000]) = 8 * length [77700000, 77000000::nat]"
proof -
  have a: "(12345678::nat) < 10 ^ 8"
    by simp
  have b: "\<forall>number \<in> set [77700000, 77000000::nat]. number < 10 ^ 8"
    by simp
  from digit_counts_sum [of 12345678 "[77700000, 77000000]"] a b show ?thesis
    by simp
qed

subsection \<open>The terminal claims\<close>

lemma length_total_counts: "length (total_counts numbers) = 10"
  by (simp add: total_counts_def)

lemma np_getitem_digit:
  "0 \<le> d \<Longrightarrow> d \<le> 9 \<Longrightarrow>
     np_getitem (total_counts numbers) (Some d) = Inr (total_counts numbers ! nat d)"
  by (simp add: np_getitem_def length_total_counts Let_def)

lemma make_exact_Inr: "make_exact = Inr a \<longleftrightarrow> a = Exact"
  by (auto simp: make_exact_def new_Action_def post_init_def Exact_def)

lemma make_bullshit_Inr: "make_bullshit = Inr a \<longleftrightarrow> a = Bullshit"
  by (auto simp: make_bullshit_def new_Action_def post_init_def Bullshit_def)

lemma make_bet_Bet: "make_bet c d = Inr a \<longleftrightarrow> 0 < c \<and> 0 \<le> d \<and> d \<le> 9 \<and> a = Bet c d"
  by (simp add: make_bet_Inr Bet_def)

lemma game_loop_exact:
  assumes "0 < n"
    and "make_move env (pos mod n) game_state w = ((elapsed, Exact), w')"
    and "0 \<le> d" and "d \<le> 9"
  shows "game_loop env n (total_counts numbers) pos game_state (Some (prev_idx, Bet c d)) w =
     Some (Inr (if c = int (total_counts numbers ! nat d) then - 1 else int prev_idx,
       game_state @ [(pos mod n, elapsed, Exact)], pos + 1, w'))"
  using assms
  by (subst game_loop.simps) (simp add: np_getitem_digit Exact_def Bet_def Let_def)

lemma game_loop_bullshit:
  assumes "0 < n"
    and "make_move env (pos mod n) game_state w = ((elapsed, Bullshit), w')"
    and "0 \<le> d" and "d \<le> 9"
  shows "game_loop env n (total_counts numbers) pos game_state (Some (prev_idx, Bet c d)) w =
     Some (Inr (if c > int (total_counts numbers ! nat d) then int (pos mod n) else int prev_idx,
       game_state @ [(pos mod n, elapsed, Bullshit)], pos + 1, w'))"
  using assms
  by (subst game_loop.simps) (simp add: np_getitem_digit Bullshit_def Bet_def Let_def)

lemma results_tie: "map (result_of (- 1)) [0..<n] = replicate n (- 1)"
  by (induction n) (simp_all add: result_of_def replicate_append_same)

lemma results_winner:
  assumes "k < n" and "i < n"
  shows "map (result_of (int k)) [0..<n] ! i = (if i = k then 1 else 0)"
  using assms by (simp add: result_of_def)


lemma play_from_Inr:
  assumes "game_loop env n (total_counts numbers) pos game_state prev w =
      Some (Inr (winner_idx, game_state', pos', w'))"
  shows "\<exists>r. play_from env n numbers first_move first_idx pos game_state prev w = Some (Inr r)
     \<and> r_winner_idx r = winner_idx
     \<and> r_results r = map (result_of winner_idx) [0..<n]
     \<and> r_game_state r = game_state'
     \<and> r_numbers r = numbers \<and> r_first_move r = first_move \<and> r_first_idx r = first_idx
     \<and> r_pos r = pos'"
  using assms by (simp add: play_from_def)

lemma zeros10: "replicate 10 x = [x, x, x, x, x, x, x, x, x, x]"
  by (simp add: numeral_eq_Suc)

lemma to_str_77700000: "to_str 77700000 = ''77700000''"
  by (simp add: to_str_def decimal.simps digit_char_def NUM_DIGITS_def)

lemma to_str_77000000: "to_str 77000000 = ''77000000''"
  by (simp add: to_str_def decimal.simps digit_char_def NUM_DIGITS_def)

lemma to_counts_77700000: "to_counts 77700000 = [5, 0, 0, 0, 0, 0, 0, 3, 0, 0]"
  by (simp add: to_counts_def to_str_77700000 zeros10 int_of_char_def nth_Cons' list_update_code)

lemma to_counts_77000000: "to_counts 77000000 = [6, 0, 0, 0, 0, 0, 0, 2, 0, 0]"
  by (simp add: to_counts_def to_str_77000000 zeros10 int_of_char_def nth_Cons' list_update_code)

lemma upt10: "[0..<10] = [0, 1, 2, 3, 4, 5, 6, 7, 8, 9]"
  by (simp add: upt_rec)

lemma total_counts_example: "total_counts [77700000, 77000000] = [11, 0, 0, 0, 0, 0, 0, 5, 0, 0]"
  by (simp add: total_counts_def to_counts_77700000 to_counts_77000000 upt10)

lemma make_move_scripted:
  "make_move scripted idx game_state (draws, m # moves) = ((0, m), (draws, moves))"
  by (simp add: scripted_def)

lemma game_loop_bet:
  assumes "0 < n"
    and "make_move env (pos mod n) game_state w = ((elapsed, action), w')"
    and "is_bet action"
    and "ensure_valid_raise action (map_option snd prev) = Inr v"
  shows "game_loop env n totals pos game_state prev w =
     game_loop env n totals (pos + 1) (game_state @ [(pos mod n, elapsed, action)])
       (Some (pos mod n, action)) w'"
  using assms by (subst game_loop.simps) (simp add: Let_def)

lemma get_random_numbers_scripted:
  "a \<noteq> b \<Longrightarrow> get_random_numbers scripted 2 ([a, b], moves) = Some ([a, b], ([], moves))"
  by (simp add: get_random_numbers_def get_random_numbers_loop.simps get_random_number_def
      scripted_def set_add_def)

lemma start_game_scripted: "fold (\<lambda>idx. start_game scripted idx (f idx) n) xs w = w"
  by (induction xs) (simp_all add: scripted_def)

lemma end_game_scripted: "fold (\<lambda>idx. end_game scripted idx (f idx) game_state numbers) xs w = w"
  by (induction xs) (simp_all add: scripted_def)

lemma fast_forward_2_0: "fast_forward 2 0 0 = Some (Inr 2)"
  by (simp add: fast_forward.simps)

lemma game_loop_overbid_example:
  "game_loop scripted 2 (total_counts [77700000, 77000000]) 2 [] None ([], [Bet 6 7, Exact]) =
     Some (Inr (0, [(0, 0, Bet 6 7), (1, 0, Exact)], 4, ([], [])))"
proof -
  have "game_loop scripted 2 (total_counts [77700000, 77000000]) 2 [] None ([], [Bet 6 7, Exact]) =
      game_loop scripted 2 (total_counts [77700000, 77000000]) 3 [(0, 0, Bet 6 7)]
        (Some (0, Bet 6 7)) ([], [Exact])"
    using game_loop_bet [of 2 scripted 2 "[]" "([], [Bet 6 7, Exact])" 0 "Bet 6 7" "([], [Exact])" None "Some True"]
    by (simp add: make_move_scripted ensure_valid_raise_def Bet_def)
  also have "\<dots> = Some (Inr (0, [(0, 0, Bet 6 7), (1, 0, Exact)], 4, ([], [])))"
    using game_loop_exact [of 2 scripted 3 "[(0, 0, Bet 6 7)]" "([], [Exact])" 0 "([], [])" 7
        "[77700000, 77000000]" 0 6]
    by (simp add: make_move_scripted total_counts_example)
  finally show ?thesis .
qed

text \<open>
  Claim C2, as stated, fails. The digit 7 occurs 5 times in the numbers 77700000 and
  77000000. Player 0 opens with the bet of 6 sevens and player 1 calls Exact: the round is
  won by player 0, the previous bettor, and player 1, who called Exact, is told Loss.
\<close>

theorem exact_overbid_counterexample:
  "total_counts [77700000, 77000000] ! 7 = 5
   \<and> play scripted 2 (Some 0) 0 ([77700000, 77000000], [Bet 6 7, Exact]) =
       Some (Inr \<lparr>r_winner_idx = 0, r_results = [1, 0],
         r_game_state = [(0, 0, Bet 6 7), (1, 0, Exact)],
         r_numbers = [77700000, 77000000], r_first_move = Some 0, r_first_idx = 0,
         r_pos = 4, r_world = ([], [])\<rparr>)"
proof -
  have "map (result_of 0) [0..<2] = [1, 0]"
    by (simp add: result_of_def upt_rec)
  then have "play scripted 2 (Some 0) 0 ([77700000, 77000000], [Bet 6 7, Exact]) =
       Some (Inr \<lparr>r_winner_idx = 0, r_results = [1, 0],
         r_game_state = [(0, 0, Bet 6 7), (1, 0, Exact)],
         r_numbers = [77700000, 77000000], r_first_move = Some 0, r_first_idx = 0,
         r_pos = 4, r_world = ([], [])\<rparr>)"
    by (simp add: play_def assign_numbers_def get_random_numbers_scripted start_game_scripted choose_first_def
        fast_forward_2_0 play_from_def game_loop_overbid_example end_game_scripted)
  then show ?thesis
    by (simp add: total_counts_example)
qed

subsection \<open>The first mover\<close>

lemma fast_forward_no_players: "fast_forward 0 first_idx pos = Some (Inl StopIteration)"
  by (subst fast_forward.simps) simp

lemma fast_forward_Some:
  assumes "fast_forward n first_idx pos = Some y"
  shows "(n = 0 \<and> y = Inl StopIteration)
    \<or> (0 < n \<and> 0 \<le> first_idx \<and> first_idx < int n
        \<and> (\<exists>pos'. y = Inr pos' \<and> pos < pos' \<and> int (pos' mod n) = first_idx))"
  using assms
proof (induction n first_idx pos y rule: fast_forward.raw_induct [rotated 1, consumes 1, case_names step])
  case (step fast_forward n first_idx pos y)
  show ?case
  proof (cases "n = 0")
    case True
    with step.hyps show ?thesis by simp
  next
    case n: False
    show ?thesis
    proof (cases "int ((pos mod n + 1) mod n) = first_idx")
      case True
      with n step.hyps have y: "y = Inr (pos + 1)"
        by simp
      have "(pos + 1) mod n = (pos mod n + 1) mod n"
        by (simp add: mod_Suc_eq)
      moreover have "(pos mod n + 1) mod n < n"
        using n by simp
      ultimately show ?thesis
        using True n y by auto
    next
      case False
      with n step.hyps have "fast_forward n first_idx (pos + 1) = Some y"
        by simp
      from step.IH [OF this] n show ?thesis
        by auto
    qed
  qed
qed

lemma fast_forward_out_of_range:
  assumes "0 < n" and "first_idx < 0 \<or> int n \<le> first_idx"
  shows "fast_forward n first_idx pos = None"
proof (cases "fast_forward n first_idx pos")
  case None
  then show ?thesis .
next
  case (Some y)
  from fast_forward_Some [OF this] assms show ?thesis
    by auto
qed

lemma fast_forward_steps:
  assumes "0 < n"
    and "\<forall>j<k. (pos + j + 1) mod n \<noteq> f"
    and "(pos + k + 1) mod n = f"
  shows "fast_forward n (int f) pos = Some (Inr (pos + k + 1))"
  using assms
proof (induction k arbitrary: pos)
  case 0
  then have "(pos mod n + 1) mod n = f"
    by (simp add: mod_Suc_eq)
  with 0 show ?case
    by (subst fast_forward.simps) simp
next
  case (Suc k)
  from Suc.prems(2) have "(pos + 1) mod n \<noteq> f"
    by (metis add.right_neutral zero_less_Suc)
  then have ne: "int ((pos mod n + 1) mod n) \<noteq> int f"
    by (simp add: mod_Suc_eq)
  have "\<forall>j<k. (pos + 1 + j + 1) mod n \<noteq> f"
  proof (intro allI impI)
    fix j assume "j < k"
    then have "Suc j < Suc k" by simp
    with Suc.prems(2) have "(pos + Suc j + 1) mod n \<noteq> f" by blast
    then show "(pos + 1 + j + 1) mod n \<noteq> f" by simp
  qed
  moreover have "(pos + 1 + k + 1) mod n = f"
    using Suc.prems(3) by simp
  ultimately have "fast_forward n (int f) (pos + 1) = Some (Inr (pos + 1 + k + 1))"
    using Suc.IH [of "pos + 1"] Suc.prems(1) by blast
  with ne Suc.prems(1) show ?case
    by (subst fast_forward.simps) simp
qed

lemma fast_forward_in_range:
  assumes "0 \<le> first_idx" and "first_idx < int n"
  shows "\<exists>pos'. fast_forward n first_idx pos = Some (Inr pos') \<and> int (pos' mod n) = first_idx"
proof -
  define f where "f = nat first_idx"
  from assms have f: "first_idx = int f" "f < n" and n: "0 < n"
    by (auto simp: f_def)
  define t where "t = pos + 1"
  have "t + (f + n - t mod n) = t div n * n + (f + n)"
  proof -
    have "t mod n < n" using n by simp
    moreover have "t = t div n * n + t mod n" by simp
    ultimately show ?thesis by linarith
  qed
  then have "(t + (f + n - t mod n)) mod n = f"
    using f(2) by simp
  then have ex: "\<exists>k. (pos + k + 1) mod n = f"
    unfolding t_def by (metis add.assoc add.commute)
  define k where "k = (LEAST k. (pos + k + 1) mod n = f)"
  have k: "(pos + k + 1) mod n = f"
    unfolding k_def using ex by (rule LeastI_ex)
  have "\<forall>j<k. (pos + j + 1) mod n \<noteq> f"
    unfolding k_def using not_less_Least by blast
  from fast_forward_steps [OF n this k] k f(1) show ?thesis
    by simp
qed


lemma assign_numbers_no_players: "assign_numbers env 0 w = Some ([], w)"
  by (simp add: assign_numbers_def get_random_numbers_def get_random_numbers_loop.simps)

lemma play_no_players: "play env 0 (Some f) pos w = Some (Inl StopIteration)"
  by (simp add: play_def assign_numbers_no_players choose_first_def fast_forward_no_players)

lemma play_out_of_range:
  assumes "0 < n" and "f < 0 \<or> int n \<le> f"
  shows "play env n (Some f) pos w = None"
  by (simp add: play_def choose_first_def fast_forward_out_of_range [OF assms]
      split: option.splits)

lemma choose_first_random:
  assumes "0 < n" and "randint_in_range env" and "choose_first env n None w = Inr (first_idx, w')"
  shows "0 \<le> first_idx \<and> first_idx < int n \<and> first_idx = int (fst (randint env 0 n w))"
proof -
  from assms(1,2) have "fst (randint env 0 n w) < n"
    by (simp add: randint_in_range_def)
  with assms(1,3) show ?thesis
    by (auto simp: choose_first_def split: prod.splits)
qed

text \<open>
  Claim C10, as stated, fails for a game without players: every \<open>first_move\<close> is outside
  the empty range \<open>[0, 0)\<close>, and the loop does exit, since the first \<^verbatim>\<open>next\<close> on the empty
  cycle raises \<^verbatim>\<open>StopIteration\<close>.
\<close>

theorem fast_forward_counterexample:
  "fast_forward 0 0 0 = Some (Inl StopIteration)
   \<and> play scripted 0 (Some 0) 0 ([], []) = Some (Inl StopIteration)"
  by (simp add: fast_forward_no_players play_no_players)

text \<open>
  Claim C10, amended. In a game with at least one player the loop that moves the generator
  to the first mover never exits for an explicitly supplied \<open>first_move\<close> outside
  \<open>[0, n)\<close>, and \<^verbatim>\<open>play\<close> never returns; without players the loop raises
  \<^verbatim>\<open>StopIteration\<close>, and so does \<^verbatim>\<open>play\<close>. For \<open>first_move\<close> in \<open>[0, n)\<close> the loop exits
  with the generator at \<open>first_move\<close>, and it exits normally only then; a first mover
  drawn by \<^verbatim>\<open>np.random.randint(n)\<close> is in \<open>[0, n)\<close>.
\<close>

theorem fast_forward_precondition:
  "(0 < n \<and> (first_move < 0 \<or> int n \<le> first_move) \<longrightarrow>
      fast_forward n first_move pos = None \<and> play env n (Some first_move) pos w = None)
   \<and> (n = 0 \<longrightarrow>
      fast_forward n first_move pos = Some (Inl StopIteration)
      \<and> play env n (Some first_move) pos w = Some (Inl StopIteration))
   \<and> (0 \<le> first_move \<and> first_move < int n \<longrightarrow>
      (\<exists>pos'. fast_forward n first_move pos = Some (Inr pos') \<and> int (pos' mod n) = first_move))
   \<and> (\<forall>pos'. fast_forward n first_move pos = Some (Inr pos') \<longrightarrow>
      0 \<le> first_move \<and> first_move < int n)
   \<and> (0 < n \<and> randint_in_range env \<and> choose_first env n None w = Inr (first_idx, w') \<longrightarrow>
      0 \<le> first_idx \<and> first_idx < int n)"
proof (intro conjI impI allI)
  assume a: "0 < n \<and> (first_move < 0 \<or> int n \<le> first_move)"
  then show "fast_forward n first_move pos = None"
    by (simp add: fast_forward_out_of_range)
  from a show "play env n (Some first_move) pos w = None"
    by (simp add: play_out_of_range)
next
  assume "n = 0"
  then show "fast_forward n first_move pos = Some (Inl StopIteration)"
    and "play env n (Some first_move) pos w = Some (Inl StopIteration)"
    by (simp_all add: fast_forward_no_players play_no_players)
next
  assume "0 \<le> first_move \<and> first_move < int n"
  then show "\<exists>pos'. fast_forward n first_move pos = Some (Inr pos') \<and> int (pos' mod n) = first_move"
    by (simp add: fast_forward_in_range)
next
  fix pos'
  assume "fast_forward n first_move pos = Some (Inr pos')"
  from fast_forward_Some [OF this] show "0 \<le> first_move" and "first_move < int n"
    by auto
next
  assume "0 < n \<and> randint_in_range env \<and> choose_first env n None w = Inr (first_idx, w')"
  then have "0 \<le> first_idx \<and> first_idx < int n"
    using choose_first_random [of n env w first_idx w'] by blast
  then show "0 \<le> first_idx" and "first_idx < int n"
    by auto
qed

lemma randint_in_range_cycling: "randint_in_range cycling"
proof -
  have "lo + k mod (hi - lo) < hi" if "lo < hi" for lo hi k :: nat
  proof -
    from that have "k mod (hi - lo) < hi - lo"
      by simp
    with that show ?thesis
      by linarith
  qed
  then show ?thesis
    by (simp add: randint_in_range_def cycling_def)
qed

theorem fast_forward_precondition_witness:
  "fast_forward 2 5 0 = None \<and> play cycling 2 (Some 5) 0 0 = None
   \<and> fast_forward 2 (- 1) 0 = None
   \<and> fast_forward 0 3 0 = Some (Inl StopIteration)
   \<and> (\<exists>pos'. fast_forward 2 1 0 = Some (Inr pos') \<and> int (pos' mod 2) = 1)
   \<and> (\<exists>first_idx w'. choose_first cycling 2 None 0 = Inr (first_idx, w') \<and> 0 \<le> first_idx
        \<and> first_idx < 2)"
proof -
  have c: "choose_first cycling 2 None 0 = Inr (0, 1)"
    by (simp add: choose_first_def cycling_def)
  from fast_forward_precondition [of 2 5 0 cycling 0 0 1]
    fast_forward_precondition [of 2 "- 1" 0 cycling 0 0 1]
    fast_forward_precondition [of 0 3 0 cycling 0 0 1]
    fast_forward_precondition [of 2 1 0 cycling 0 0 1] c randint_in_range_cycling
  show ?thesis
    by simp
qed

lemma game_loop_first_not_bet:
  assumes "0 < n"
    and "make_move env (pos mod n) game_state w = ((elapsed, action), w')"
    and "\<not> is_bet action"
  shows "game_loop env n totals pos game_state None w = Some (Inl FirstMoveNotBet)"
  using assms by (subst game_loop.simps) (simp add: Let_def)

text \<open>
  Claim C9. A round whose first move is Exact or Bullshit fails with the error
  \<open>FirstMoveNotBet\<close>: \<^verbatim>\<open>play\<close> raises and returns no winner. The first move is the move of
  player \<open>first_idx\<close> on the empty log, after the numbers are assigned and the first mover
  is chosen.
\<close>

theorem first_move_not_bet:
  assumes "assign_numbers env n w = Some (numbers, w2)"
    and "choose_first env n first_move w2 = Inr (first_idx, w3)"
    and "0 \<le> first_idx" and "first_idx < int n"
    and "make_move env (nat first_idx) [] w3 = ((elapsed, action), w4)"
    and "make_exact = Inr action \<or> make_bullshit = Inr action"
  shows "play env n first_move pos w = Some (Inl FirstMoveNotBet)"
proof -
  from fast_forward_in_range [OF assms(3,4), of pos]
  obtain pos1 where p: "fast_forward n first_idx pos = Some (Inr pos1)" "int (pos1 mod n) = first_idx"
    by blast
  from assms(3,4) have n: "0 < n"
    by simp
  from p(2) have idx: "pos1 mod n = nat first_idx"
    by simp
  from assms(6) have "\<not> is_bet action"
    by (auto simp: make_exact_Inr make_bullshit_Inr Exact_def Bullshit_def)
  with assms(5) idx n
  have "game_loop env n (total_counts numbers) pos1 [] None w3 = Some (Inl FirstMoveNotBet)"
    by (simp add: game_loop_first_not_bet)
  then show ?thesis
    by (simp add: play_def assms(1,2) p(1) play_from_def)
qed

theorem first_move_not_bet_witness:
  "assign_numbers scripted 2 ([77700000, 77000000], [Exact]) =
      Some ([77700000, 77000000], ([], [Exact]))
   \<and> choose_first scripted 2 (Some 1) ([], [Exact]) = Inr (1, ([], [Exact]))
   \<and> (0::int) \<le> 1 \<and> (1::int) < int 2
   \<and> make_move scripted (nat 1) [] ([], [Exact]) = ((0, Exact), ([], []))
   \<and> make_exact = Inr Exact
   \<and> play scripted 2 (Some 1) 0 ([77700000, 77000000], [Exact]) = Some (Inl FirstMoveNotBet)"
proof -
  have h1: "assign_numbers scripted 2 ([77700000, 77000000], [Exact]) =
      Some ([77700000, 77000000], ([], [Exact]))"
    by (simp add: assign_numbers_def get_random_numbers_scripted start_game_scripted)
  have h2: "choose_first scripted 2 (Some 1) ([], [Exact]) = Inr (1, ([], [Exact]))"
    by (simp add: choose_first_def)
  have h3: "(0::int) \<le> 1" and h4: "(1::int) < int 2"
    by simp_all
  have h5: "make_move scripted (nat 1) [] ([], [Exact]) = ((0, Exact), ([], []))"
    by (simp add: make_move_scripted)
  have h6: "make_exact = Inr Exact"
    by (simp add: make_exact_Inr)
  then have h6': "make_exact = Inr Exact \<or> make_bullshit = Inr Exact"
    by simp
  from first_move_not_bet [OF h1 h2 h3 h4 h5 h6', of 0] h1 h2 h3 h4 h5 h6 show ?thesis
    by blast
qed

subsection \<open>The resolution of a round\<close>

lemma betting_pos:
  assumes "betting env n pos0 w0 pos game_state w"
  shows "pos0 \<le> pos"
  using assms by (induction rule: betting.induct) auto

lemma betting_last:
  assumes "betting env n pos0 w0 pos game_state w" and "game_state \<noteq> []"
  shows "0 < n \<and> pos0 < pos \<and> fst (last game_state) = (pos - 1) mod n"
  using assms by (induction rule: betting.induct) (auto dest: betting_pos)

lemma betting_game_loop:
  assumes "betting env n pos0 w0 pos game_state w"
  shows "game_loop env n totals pos0 [] None w0 =
     game_loop env n totals pos game_state
       (if game_state = [] then None
        else Some (fst (last game_state), snd (snd (last game_state)))) w"
  using assms
proof (induction rule: betting.induct)
  case start
  show ?case by simp
next
  case (bet pos game_state w elapsed action w' v)
  let ?prev = "if game_state = [] then None
        else Some (fst (last game_state), snd (snd (last game_state)))"
  have "map_option snd ?prev = last_bet game_state"
    by (simp add: last_bet_def)
  with bet.hyps have "ensure_valid_raise action (map_option snd ?prev) = Inr v"
    by simp
  from game_loop_bet [OF bet.hyps(2,3,4) this, of totals] bet.IH show ?case
    by simp
qed

lemma mod_Suc_neq:
  assumes "1 < n"
  shows "Suc p mod n \<noteq> p mod n"
proof -
  have "p mod n < n" using assms by simp
  with assms show ?thesis
    by (auto simp: mod_Suc)
qed

lemma play_Inr:
  assumes "assign_numbers env n w = Some (numbers, w2)"
    and "choose_first env n first_move w2 = Inr (first_idx, w3)"
    and "fast_forward n first_idx pos = Some (Inr pos1)"
    and "game_loop env n (total_counts numbers) pos1 [] None w3 =
      Some (Inr (winner_idx, game_state, pos2, w4))"
  shows "\<exists>r. play env n first_move pos w = Some (Inr r)
     \<and> r_winner_idx r = winner_idx
     \<and> r_results r = map (result_of winner_idx) [0..<n]
     \<and> r_game_state r = game_state
     \<and> r_numbers r = numbers \<and> r_first_move r = first_move \<and> r_first_idx r = first_idx
     \<and> r_pos r = pos2"
  using play_from_Inr [OF assms(4), of first_move first_idx]
  by (simp add: play_def assms(1,2,3))


lemma Exact_neq_Bullshit: "Exact \<noteq> Bullshit"
  by (simp add: Exact_def Bullshit_def)

lemma round_terminal:
  assumes "assign_numbers env n w = Some (numbers, w2)"
    and "choose_first env n first_move w2 = Inr (first_idx, w3)"
    and "fast_forward n first_idx pos = Some (Inr pos1)"
    and "betting env n pos1 w3 pos' game_state w'"
    and "game_state \<noteq> []"
    and "last game_state = (prev_idx, elapsed0, Bet c d)"
    and "0 \<le> d" and "d \<le> 9"
    and "make_move env (pos' mod n) game_state w' = ((elapsed, action), w'')"
    and "action = Exact \<or> action = Bullshit"
  shows "\<exists>r. play env n first_move pos w = Some (Inr r)
     \<and> r_winner_idx r =
        (if action = Exact
         then (if c = int (total_counts numbers ! nat d) then - 1 else int prev_idx)
         else (if c > int (total_counts numbers ! nat d) then int (pos' mod n) else int prev_idx))
     \<and> r_results r = map (result_of (r_winner_idx r)) [0..<n]
     \<and> r_game_state r = game_state @ [(pos' mod n, elapsed, action)]
     \<and> r_numbers r = numbers
     \<and> prev_idx < n \<and> prev_idx = (pos' - 1) mod n"
proof -
  from betting_last [OF assms(4,5)] assms(6)
  have n: "0 < n" and p: "prev_idx = (pos' - 1) mod n"
    by simp_all
  then have lt: "prev_idx < n"
    by simp
  let ?win = "if action = Exact
         then (if c = int (total_counts numbers ! nat d) then - 1 else int prev_idx)
         else (if c > int (total_counts numbers ! nat d) then int (pos' mod n) else int prev_idx)"
  have "game_loop env n (total_counts numbers) pos1 [] None w3 =
      game_loop env n (total_counts numbers) pos' game_state (Some (prev_idx, Bet c d)) w'"
    using betting_game_loop [OF assms(4), of "total_counts numbers"] assms(5,6) by simp
  also have "\<dots> = Some (Inr (?win, game_state @ [(pos' mod n, elapsed, action)], pos' + 1, w''))"
  proof (cases "action = Exact")
    case True
    with assms(9) have m: "make_move env (pos' mod n) game_state w' = ((elapsed, Exact), w'')"
      by simp
    from game_loop_exact [OF n m assms(7,8), of numbers prev_idx c] True show ?thesis
      by simp
  next
    case False
    with assms(10) have a: "action = Bullshit"
      by simp
    with assms(9) have m: "make_move env (pos' mod n) game_state w' = ((elapsed, Bullshit), w'')"
      by simp
    from game_loop_bullshit [OF n m assms(7,8), of numbers prev_idx c] a show ?thesis
      by (simp add: Exact_neq_Bullshit [symmetric])
  qed
  finally have "game_loop env n (total_counts numbers) pos1 [] None w3 =
      Some (Inr (?win, game_state @ [(pos' mod n, elapsed, action)], pos' + 1, w''))" .
  from play_Inr [OF assms(1,2,3) this] lt p show ?thesis
    by auto
qed

text \<open>
  Claim C1. In a round the players have made the bets logged in \<open>game_state\<close>, at least
  one; the last of them, \<open>previousBet\<close> with count \<open>c\<close> and digit \<open>d\<close>, was made by player
  \<open>prev_idx\<close>. The next player calls Exact, and \<open>actual\<close> is the entry of the total digit
  counts of the round for \<open>d\<close>. Then \<^verbatim>\<open>play\<close> returns: if \<open>c = actual\<close> the winner index
  is \<open>-1\<close> and every player is told Tie (\<open>-1\<close>); otherwise the winner is \<open>prev_idx\<close>, who
  is told Win (\<open>1\<close>), and every other player is told Loss (\<open>0\<close>).
\<close>

theorem exact_resolution:
  assumes "assign_numbers env n w = Some (numbers, w2)"
    and "choose_first env n first_move w2 = Inr (first_idx, w3)"
    and "fast_forward n first_idx pos = Some (Inr pos1)"
    and "betting env n pos1 w3 pos' game_state w'"
    and "game_state \<noteq> []"
    and "last game_state = (prev_idx, elapsed0, previousBet)"
    and "make_bet c d = Inr previousBet"
    and "make_exact = Inr action"
    and "make_move env (pos' mod n) game_state w' = ((elapsed, action), w'')"
  shows "\<exists>r. play env n first_move pos w = Some (Inr r)
     \<and> r_game_state r = game_state @ [(pos' mod n, elapsed, action)]
     \<and> length (r_results r) = n
     \<and> (c = int (total_counts numbers ! nat d) \<longrightarrow>
          r_winner_idx r = - 1 \<and> (\<forall>i<n. r_results r ! i = - 1))
     \<and> (c \<noteq> int (total_counts numbers ! nat d) \<longrightarrow>
          r_winner_idx r = int prev_idx \<and> prev_idx < n \<and> r_results r ! prev_idx = 1
          \<and> (\<forall>i<n. i \<noteq> prev_idx \<longrightarrow> r_results r ! i = 0))"
proof -
  from assms(7,8) have b: "previousBet = Bet c d" "0 \<le> d" "d \<le> 9" and a: "action = Exact"
    by (auto simp: make_bet_Bet make_exact_Inr)
  from assms(6) b(1) have l: "last game_state = (prev_idx, elapsed0, Bet c d)"
    by simp
  from a have t: "action = Exact \<or> action = Bullshit"
    by simp
  from round_terminal [OF assms(1,2,3,4,5) l b(2,3) assms(9) t] a
  obtain r where r: "play env n first_move pos w = Some (Inr r)"
      "r_winner_idx r = (if c = int (total_counts numbers ! nat d) then - 1 else int prev_idx)"
      "r_results r = map (result_of (r_winner_idx r)) [0..<n]"
      "r_game_state r = game_state @ [(pos' mod n, elapsed, action)]"
      "prev_idx < n"
    by auto
  have tie: "c = int (total_counts numbers ! nat d) \<longrightarrow>
          r_winner_idx r = - 1 \<and> (\<forall>i<n. r_results r ! i = - 1)"
    using r(2,3) by (simp add: results_tie)
  have win: "c \<noteq> int (total_counts numbers ! nat d) \<longrightarrow>
          r_winner_idx r = int prev_idx \<and> prev_idx < n \<and> r_results r ! prev_idx = 1
          \<and> (\<forall>i<n. i \<noteq> prev_idx \<longrightarrow> r_results r ! i = 0)"
    using r(2,3,5) by (simp add: result_of_def)
  have "length (r_results r) = n"
    using r(3) by simp
  with r(1,4) tie win show ?thesis
    by blast
qed

lemma assign_numbers_scripted:
  "a \<noteq> b \<Longrightarrow> assign_numbers scripted 2 ([a, b], moves) = Some ([a, b], ([], moves))"
  by (simp add: assign_numbers_def get_random_numbers_scripted start_game_scripted)

lemma betting_scripted_first:
  assumes "0 < c" and "0 \<le> d" and "d \<le> 9"
  shows "betting scripted 2 2 ([], Bet c d # moves) 3 [(0, 0, Bet c d)] ([], moves)"
proof -
  have "betting scripted 2 2 ([], Bet c d # moves) (2 + 1)
      ([] @ [(2 mod 2, 0, Bet c d)]) ([], moves)"
  proof (rule betting.bet [OF betting.start])
    show "(0::nat) < 2"
      by simp
    show "make_move scripted (2 mod 2) [] ([], Bet c d # moves) = ((0, Bet c d), ([], moves))"
      by (simp add: make_move_scripted)
    show "is_bet (Bet c d)"
      by (simp add: Bet_def)
    show "ensure_valid_raise (Bet c d) (last_bet []) = Inr (Some True)"
      by (simp add: ensure_valid_raise_def last_bet_def)
  qed
  then show ?thesis
    by simp
qed

theorem exact_resolution_witness:
  "assign_numbers scripted 2 ([77700000, 77000000], [Bet 5 7, Exact]) =
      Some ([77700000, 77000000], ([], [Bet 5 7, Exact]))
   \<and> choose_first scripted 2 (Some 0) ([], [Bet 5 7, Exact]) = Inr (0, ([], [Bet 5 7, Exact]))
   \<and> fast_forward 2 0 0 = Some (Inr 2)
   \<and> betting scripted 2 2 ([], [Bet 5 7, Exact]) 3 [(0, 0, Bet 5 7)] ([], [Exact])
   \<and> [(0::nat, 0::real, Bet 5 7)] \<noteq> []
   \<and> last [(0::nat, 0::real, Bet 5 7)] = (0, 0, Bet 5 7)
   \<and> make_bet 5 7 = Inr (Bet 5 7) \<and> make_exact = Inr Exact
   \<and> make_move scripted (3 mod 2) [(0, 0, Bet 5 7)] ([], [Exact]) = ((0, Exact), ([], []))
   \<and> (5::int) = int (total_counts [77700000, 77000000] ! nat 7)
   \<and> (\<exists>r. play scripted 2 (Some 0) 0 ([77700000, 77000000], [Bet 5 7, Exact]) = Some (Inr r)
         \<and> r_game_state r = [(0, 0, Bet 5 7), (1, 0, Exact)]
         \<and> r_winner_idx r = - 1 \<and> r_results r ! 0 = - 1 \<and> r_results r ! 1 = - 1)"
proof -
  have h1: "assign_numbers scripted 2 ([77700000, 77000000], [Bet 5 7, Exact]) =
      Some ([77700000, 77000000], ([], [Bet 5 7, Exact]))"
    by (simp add: assign_numbers_scripted)
  have h2: "choose_first scripted 2 (Some 0) ([], [Bet 5 7, Exact]) = Inr (0, ([], [Bet 5 7, Exact]))"
    by (simp add: choose_first_def)
  have h3: "fast_forward 2 0 0 = Some (Inr 2)"
    by (rule fast_forward_2_0)
  have h4: "betting scripted 2 2 ([], [Bet 5 7, Exact]) 3 [(0, 0, Bet 5 7)] ([], [Exact])"
    by (rule betting_scripted_first) simp_all
  have h5: "[(0::nat, 0::real, Bet 5 7)] \<noteq> []"
    by simp
  have h6: "last [(0::nat, 0::real, Bet 5 7)] = (0, 0, Bet 5 7)"
    by simp
  have h7: "make_bet 5 7 = Inr (Bet 5 7)"
    by (simp add: make_bet_Bet)
  have h8: "make_exact = Inr Exact"
    by (simp add: make_exact_Inr)
  have h9: "make_move scripted (3 mod 2) [(0, 0, Bet 5 7)] ([], [Exact]) = ((0, Exact), ([], []))"
    by (simp add: make_move_scripted)
  have h10: "(5::int) = int (total_counts [77700000, 77000000] ! nat 7)"
    by (simp add: total_counts_example)
  from exact_resolution [OF h1 h2 h3 h4 h5 h6 h7 h8 h9] h10
  have "\<exists>r. play scripted 2 (Some 0) 0 ([77700000, 77000000], [Bet 5 7, Exact]) = Some (Inr r)
         \<and> r_game_state r = [(0, 0, Bet 5 7), (1, 0, Exact)]
         \<and> r_winner_idx r = - 1 \<and> r_results r ! 0 = - 1 \<and> r_results r ! 1 = - 1"
    by auto
  with h1 h2 h3 h4 h5 h6 h7 h8 h9 h10 show ?thesis
    by blast
qed


text \<open>
  Claim C2, amended. In a round whose numbers hold the digit 7 exactly 5 times, the last
  logged bet, made by player \<open>prev_idx\<close>, is the bet of 6 sevens, and the next player calls
  Exact. Then \<^verbatim>\<open>play\<close> returns with a win for \<open>prev_idx\<close>, the previous bettor, and a loss
  for every other player. With two players or more the player who called Exact is one of
  these others and is told Loss; with a single player the caller is the previous bettor.
\<close>

theorem exact_overbid_resolution:
  assumes "assign_numbers env n w = Some (numbers, w2)"
    and "choose_first env n first_move w2 = Inr (first_idx, w3)"
    and "fast_forward n first_idx pos = Some (Inr pos1)"
    and "betting env n pos1 w3 pos' game_state w'"
    and "game_state \<noteq> []"
    and "last game_state = (prev_idx, elapsed0, previousBet)"
    and "make_bet 6 7 = Inr previousBet"
    and "total_counts numbers ! 7 = 5"
    and "make_exact = Inr action"
    and "make_move env (pos' mod n) game_state w' = ((elapsed, action), w'')"
  shows "\<exists>r. play env n first_move pos w = Some (Inr r)
     \<and> r_game_state r = game_state @ [(pos' mod n, elapsed, action)]
     \<and> r_winner_idx r = int prev_idx \<and> prev_idx < n \<and> r_results r ! prev_idx = 1
     \<and> (\<forall>i<n. i \<noteq> prev_idx \<longrightarrow> r_results r ! i = 0)
     \<and> (1 < n \<longrightarrow> pos' mod n \<noteq> prev_idx \<and> r_results r ! (pos' mod n) = 0)
     \<and> (n = 1 \<longrightarrow> pos' mod n = prev_idx)"
proof -
  from assms(7,9) have b: "previousBet = Bet 6 7" and a: "action = Exact"
    by (auto simp: make_bet_Bet make_exact_Inr)
  from assms(6) b have l: "last game_state = (prev_idx, elapsed0, Bet 6 7)"
    by simp
  from a have t: "action = Exact \<or> action = Bullshit"
    by simp
  from round_terminal [OF assms(1,2,3,4,5) l _ _ assms(10) t] a assms(8)
  obtain r where r: "play env n first_move pos w = Some (Inr r)"
      "r_winner_idx r = int prev_idx"
      "r_results r = map (result_of (r_winner_idx r)) [0..<n]"
      "r_game_state r = game_state @ [(pos' mod n, elapsed, action)]"
      "prev_idx < n" "prev_idx = (pos' - 1) mod n"
    by auto
  from betting_last [OF assms(4,5)] have pos: "pos' = Suc (pos' - 1)" and n: "0 < n"
    by simp_all
  have others: "\<forall>i<n. i \<noteq> prev_idx \<longrightarrow> r_results r ! i = 0"
    using r(2,3) by (simp add: result_of_def)
  have winner: "r_results r ! prev_idx = 1"
    using r(2,3,5) by (simp add: result_of_def)
  have caller: "1 < n \<longrightarrow> pos' mod n \<noteq> prev_idx \<and> r_results r ! (pos' mod n) = 0"
  proof
    assume "1 < n"
    from mod_Suc_neq [OF this, of "pos' - 1"] pos r(6) have "pos' mod n \<noteq> prev_idx"
      by simp
    moreover have "pos' mod n < n"
      using n by simp
    ultimately show "pos' mod n \<noteq> prev_idx \<and> r_results r ! (pos' mod n) = 0"
      using others by blast
  qed
  have single: "n = 1 \<longrightarrow> pos' mod n = prev_idx"
    using r(6) by simp
  from r(1,2,4,5) winner others caller single show ?thesis
    by blast
qed

theorem exact_overbid_resolution_witness:
  "assign_numbers scripted 2 ([77700000, 77000000], [Bet 6 7, Exact]) =
      Some ([77700000, 77000000], ([], [Bet 6 7, Exact]))
   \<and> choose_first scripted 2 (Some 0) ([], [Bet 6 7, Exact]) = Inr (0, ([], [Bet 6 7, Exact]))
   \<and> fast_forward 2 0 0 = Some (Inr 2)
   \<and> betting scripted 2 2 ([], [Bet 6 7, Exact]) 3 [(0, 0, Bet 6 7)] ([], [Exact])
   \<and> [(0::nat, 0::real, Bet 6 7)] \<noteq> []
   \<and> last [(0::nat, 0::real, Bet 6 7)] = (0, 0, Bet 6 7)
   \<and> make_bet 6 7 = Inr (Bet 6 7)
   \<and> total_counts [77700000, 77000000] ! 7 = 5
   \<and> make_exact = Inr Exact
   \<and> make_move scripted (3 mod 2) [(0, 0, Bet 6 7)] ([], [Exact]) = ((0, Exact), ([], []))
   \<and> (1::nat) < 2
   \<and> (\<exists>r. play scripted 2 (Some 0) 0 ([77700000, 77000000], [Bet 6 7, Exact]) = Some (Inr r)
         \<and> r_winner_idx r = 0 \<and> r_results r ! 0 = 1 \<and> r_results r ! (3 mod 2) = 0)"
proof -
  have h1: "assign_numbers scripted 2 ([77700000, 77000000], [Bet 6 7, Exact]) =
      Some ([77700000, 77000000], ([], [Bet 6 7, Exact]))"
    by (simp add: assign_numbers_scripted)
  have h2: "choose_first scripted 2 (Some 0) ([], [Bet 6 7, Exact]) = Inr (0, ([], [Bet 6 7, Exact]))"
    by (simp add: choose_first_def)
  have h3: "fast_forward 2 0 0 = Some (Inr 2)"
    by (rule fast_forward_2_0)
  have h4: "betting scripted 2 2 ([], [Bet 6 7, Exact]) 3 [(0, 0, Bet 6 7)] ([], [Exact])"
    by (rule betting_scripted_first) simp_all
  have h5: "[(0::nat, 0::real, Bet 6 7)] \<noteq> []"
    by simp
  have h6: "last [(0::nat, 0::real, Bet 6 7)] = (0, 0, Bet 6 7)"
    by simp
  have h7: "make_bet 6 7 = Inr (Bet 6 7)"
    by (simp add: make_bet_Bet)
  have h8: "total_counts [77700000, 77000000] ! 7 = 5"
    by (simp add: total_counts_example)
  have h9: "make_exact = Inr Exact"
    by (simp add: make_exact_Inr)
  have h10: "make_move scripted (3 mod 2) [(0, 0, Bet 6 7)] ([], [Exact]) = ((0, Exact), ([], []))"
    by (simp add: make_move_scripted)
  have h11: "(1::nat) < 2"
    by simp
  from exact_overbid_resolution [OF h1 h2 h3 h4 h5 h6 h7 h8 h9 h10] h11
  have "\<exists>r. play scripted 2 (Some 0) 0 ([77700000, 77000000], [Bet 6 7, Exact]) = Some (Inr r)
         \<and> r_winner_idx r = 0 \<and> r_results r ! 0 = 1 \<and> r_results r ! (3 mod 2) = 0"
    by auto
  with h1 h2 h3 h4 h5 h6 h7 h8 h9 h10 h11 show ?thesis
    by blast
qed

text \<open>
  Claim C3. In a round the players have made the bets logged in \<open>game_state\<close>, at least
  one; the last of them, \<open>previousBet\<close> with count \<open>c\<close> and digit \<open>d\<close>, was made by player
  \<open>prev_idx\<close>. The next player, \<open>pos' mod n\<close>, calls Bullshit, and \<open>actual\<close> is the entry
  of the total digit counts of the round for \<open>d\<close>. Then \<^verbatim>\<open>play\<close> returns: if \<open>c > actual\<close>
  the challenger wins, if \<open>c \<le> actual\<close> the player \<open>prev_idx\<close> wins; the winner is told
  Win and every other player Loss.
\<close>

theorem bullshit_resolution:
  assumes "assign_numbers env n w = Some (numbers, w2)"
    and "choose_first env n first_move w2 = Inr (first_idx, w3)"
    and "fast_forward n first_idx pos = Some (Inr pos1)"
    and "betting env n pos1 w3 pos' game_state w'"
    and "game_state \<noteq> []"
    and "last game_state = (prev_idx, elapsed0, previousBet)"
    and "make_bet c d = Inr previousBet"
    and "make_bullshit = Inr action"
    and "make_move env (pos' mod n) game_state w' = ((elapsed, action), w'')"
  shows "\<exists>r. play env n first_move pos w = Some (Inr r)
     \<and> r_game_state r = game_state @ [(pos' mod n, elapsed, action)]
     \<and> (c > int (total_counts numbers ! nat d) \<longrightarrow>
          r_winner_idx r = int (pos' mod n) \<and> pos' mod n < n \<and> r_results r ! (pos' mod n) = 1
          \<and> (\<forall>i<n. i \<noteq> pos' mod n \<longrightarrow> r_results r ! i = 0))
     \<and> (c \<le> int (total_counts numbers ! nat d) \<longrightarrow>
          r_winner_idx r = int prev_idx \<and> prev_idx < n \<and> r_results r ! prev_idx = 1
          \<and> (\<forall>i<n. i \<noteq> prev_idx \<longrightarrow> r_results r ! i = 0))"
proof -
  from assms(7,8) have b: "previousBet = Bet c d" "0 \<le> d" "d \<le> 9" and a: "action = Bullshit"
    by (auto simp: make_bet_Bet make_bullshit_Inr)
  from assms(6) b(1) have l: "last game_state = (prev_idx, elapsed0, Bet c d)"
    by simp
  from a have t: "action = Exact \<or> action = Bullshit"
    by simp
  from round_terminal [OF assms(1,2,3,4,5) l b(2,3) assms(9) t] a
  obtain r where r: "play env n first_move pos w = Some (Inr r)"
      "r_winner_idx r =
        (if c > int (total_counts numbers ! nat d) then int (pos' mod n) else int prev_idx)"
      "r_results r = map (result_of (r_winner_idx r)) [0..<n]"
      "r_game_state r = game_state @ [(pos' mod n, elapsed, action)]"
      "prev_idx < n"
    by (auto simp: Exact_neq_Bullshit [symmetric])
  from r(5) have n: "pos' mod n < n"
    by simp
  have right: "c > int (total_counts numbers ! nat d) \<longrightarrow>
          r_winner_idx r = int (pos' mod n) \<and> pos' mod n < n \<and> r_results r ! (pos' mod n) = 1
          \<and> (\<forall>i<n. i \<noteq> pos' mod n \<longrightarrow> r_results r ! i = 0)"
    using r(2,3) n by (simp add: result_of_def)
  have wrong: "c \<le> int (total_counts numbers ! nat d) \<longrightarrow>
          r_winner_idx r = int prev_idx \<and> prev_idx < n \<and> r_results r ! prev_idx = 1
          \<and> (\<forall>i<n. i \<noteq> prev_idx \<longrightarrow> r_results r ! i = 0)"
    using r(2,3,5) by (simp add: result_of_def)
  from r(1,4) right wrong show ?thesis
    by blast
qed

theorem bullshit_resolution_witness:
  "assign_numbers scripted 2 ([77700000, 77000000], [Bet 6 7, Bullshit]) =
      Some ([77700000, 77000000], ([], [Bet 6 7, Bullshit]))
   \<and> choose_first scripted 2 (Some 0) ([], [Bet 6 7, Bullshit]) = Inr (0, ([], [Bet 6 7, Bullshit]))
   \<and> fast_forward 2 0 0 = Some (Inr 2)
   \<and> betting scripted 2 2 ([], [Bet 6 7, Bullshit]) 3 [(0, 0, Bet 6 7)] ([], [Bullshit])
   \<and> [(0::nat, 0::real, Bet 6 7)] \<noteq> []
   \<and> last [(0::nat, 0::real, Bet 6 7)] = (0, 0, Bet 6 7)
   \<and> make_bet 6 7 = Inr (Bet 6 7) \<and> make_bullshit = Inr Bullshit
   \<and> make_move scripted (3 mod 2) [(0, 0, Bet 6 7)] ([], [Bullshit]) = ((0, Bullshit), ([], []))
   \<and> (6::int) > int (total_counts [77700000, 77000000] ! nat 7)
   \<and> (\<exists>r. play scripted 2 (Some 0) 0 ([77700000, 77000000], [Bet 6 7, Bullshit]) = Some (Inr r)
         \<and> r_game_state r = [(0, 0, Bet 6 7), (1, 0, Bullshit)]
         \<and> r_winner_idx r = 1 \<and> r_results r ! 1 = 1 \<and> r_results r ! 0 = 0)"
proof -
  have h1: "assign_numbers scripted 2 ([77700000, 77000000], [Bet 6 7, Bullshit]) =
      Some ([77700000, 77000000], ([], [Bet 6 7, Bullshit]))"
    by (simp add: assign_numbers_scripted)
  have h2: "choose_first scripted 2 (Some 0) ([], [Bet 6 7, Bullshit]) = Inr (0, ([], [Bet 6 7, Bullshit]))"
    by (simp add: choose_first_def)
  have h3: "fast_forward 2 0 0 = Some (Inr 2)"
    by (rule fast_forward_2_0)
  have h4: "betting scripted 2 2 ([], [Bet 6 7, Bullshit]) 3 [(0, 0, Bet 6 7)] ([], [Bullshit])"
    by (rule betting_scripted_first) simp_all
  have h5: "[(0::nat, 0::real, Bet 6 7)] \<noteq> []"
    by simp
  have h6: "last [(0::nat, 0::real, Bet 6 7)] = (0, 0, Bet 6 7)"
    by simp
  have h7: "make_bet 6 7 = Inr (Bet 6 7)"
    by (simp add: make_bet_Bet)
  have h8: "make_bullshit = Inr Bullshit"
    by (simp add: make_bullshit_Inr)
  have h9: "make_move scripted (3 mod 2) [(0, 0, Bet 6 7)] ([], [Bullshit]) = ((0, Bullshit), ([], []))"
    by (simp add: make_move_scripted)
  have h10: "(6::int) > int (total_counts [77700000, 77000000] ! nat 7)"
    by (simp add: total_counts_example)
  from bullshit_resolution [OF h1 h2 h3 h4 h5 h6 h7 h8 h9] h10
  have "\<exists>r. play scripted 2 (Some 0) 0 ([77700000, 77000000], [Bet 6 7, Bullshit]) = Some (Inr r)
         \<and> r_game_state r = [(0, 0, Bet 6 7), (1, 0, Bullshit)]
         \<and> r_winner_idx r = 1 \<and> r_results r ! 1 = 1 \<and> r_results r ! 0 = 0"
    by auto
  with h1 h2 h3 h4 h5 h6 h7 h8 h9 h10 show ?thesis
    by blast
qed

subsection \<open>Random numbers\<close>

lemma distinct_length_bound:
  assumes "distinct xs" and "\<forall>x \<in> set xs. x < (N::nat)"
  shows "length xs \<le> N"
proof -
  from assms(2) have "set xs \<subseteq> {..<N}"
    by auto
  then have "card (set xs) \<le> card {..<N}"
    by (intro card_mono) simp_all
  with assms(1) show ?thesis
    by (simp add: distinct_card)
qed

lemma set_add_props:
  "distinct numbers \<Longrightarrow> distinct (set_add x numbers)"
  "set (set_add x numbers) = insert x (set numbers)"
  "length (set_add x numbers) \<le> Suc (length numbers)"
  by (auto simp: set_add_def)

lemma get_random_number_range:
  assumes "randint_in_range env"
  shows "fst (get_random_number env w) < 10 ^ 8"
  using assms by (simp add: get_random_number_def randint_in_range_def NUM_DIGITS_def)

lemma get_random_numbers_loop_Some:
  assumes "get_random_numbers_loop env n numbers w = Some y"
  shows "distinct numbers \<and> length numbers \<le> n \<longrightarrow>
     length (fst y) = n \<and> distinct (fst y)
     \<and> (randint_in_range env \<and> (\<forall>x \<in> set numbers. x < 10 ^ 8) \<longrightarrow>
          (\<forall>x \<in> set (fst y). x < 10 ^ 8))"
  using assms
proof (induction env n numbers w y
    rule: get_random_numbers_loop.raw_induct [rotated 1, consumes 1, case_names step])
  case (step loop env n numbers w y)
  show ?case
  proof (cases "length numbers < n")
    case False
    with step.hyps have "y = (numbers, w)"
      by simp
    with False show ?thesis
      by auto
  next
    case True
    obtain x w' where g: "get_random_number env w = (x, w')"
      by (cases "get_random_number env w")
    with True step.hyps have rec: "loop env n (set_add x numbers) w' = Some y"
      by simp
    have x: "randint_in_range env \<longrightarrow> x < 10 ^ 8"
      using get_random_number_range [of env w] g by simp
    note ih = step.IH [OF rec]
    show ?thesis
    proof (intro impI)
      assume a: "distinct numbers \<and> length numbers \<le> n"
      then have d: "distinct (set_add x numbers)"
        by (simp add: set_add_props(1))
      have "length (set_add x numbers) \<le> Suc (length numbers)"
        by (rule set_add_props(3))
      with True have l: "length (set_add x numbers) \<le> n"
        by simp
      from ih d l have c: "length (fst y) = n" "distinct (fst y)"
        and r: "randint_in_range env \<and> (\<forall>x' \<in> set (set_add x numbers). x' < 10 ^ 8) \<longrightarrow>
          (\<forall>x' \<in> set (fst y). x' < 10 ^ 8)"
        by blast+
      have "\<forall>x' \<in> set (fst y). x' < 10 ^ 8"
        if b: "randint_in_range env \<and> (\<forall>x' \<in> set numbers. x' < 10 ^ 8)"
      proof -
        from b x have "x < 10 ^ 8"
          by blast
        with b have "\<forall>x' \<in> set (set_add x numbers). x' < 10 ^ 8"
          by (simp add: set_add_props(2))
        with r b show ?thesis
          by blast
      qed
      with c show "length (fst y) = n \<and> distinct (fst y)
         \<and> (randint_in_range env \<and> (\<forall>x \<in> set numbers. x < 10 ^ 8) \<longrightarrow>
          (\<forall>x \<in> set (fst y). x < 10 ^ 8))"
        by blast
    qed
  qed
qed

lemma get_random_numbers_Some:
  assumes "get_random_numbers env n w = Some (numbers, w')"
  shows "length numbers = n \<and> distinct numbers
     \<and> (randint_in_range env \<longrightarrow> (\<forall>x \<in> set numbers. x < 10 ^ 8))"
  using get_random_numbers_loop_Some [of env n "[]" w "(numbers, w')"] assms
  by (simp add: get_random_numbers_def)

lemma get_random_numbers_diverges:
  assumes "randint_in_range env" and "10 ^ 8 < n"
  shows "get_random_numbers env n w = None"
proof (cases "get_random_numbers env n w")
  case None
  then show ?thesis .
next
  case (Some y)
  obtain numbers w' where y: "y = (numbers, w')"
    by (cases y)
  from get_random_numbers_Some [of env n w numbers w'] Some y assms(1)
  have "length numbers = n" "distinct numbers" "\<forall>x \<in> set numbers. x < 10 ^ 8"
    by simp_all
  with distinct_length_bound [of numbers "10 ^ 8"] assms(2) show ?thesis
    by simp
qed

text \<open>
  Claim C6, as stated, fails. \<^verbatim>\<open>get_random_numbers\<close> has no bound on its retries and
  raises no error: asked for \<open>10 ^ 8 + 1\<close> numbers, with a generator that runs through all
  of \<open>[0, 10 ^ 8)\<close> again and again, it never returns.
\<close>

theorem get_random_numbers_counterexample:
  "get_random_numbers cycling 100000001 0 = None"
  using get_random_numbers_diverges [OF randint_in_range_cycling, of 100000001 0] by simp

text \<open>
  Claim C6, amended. \<^verbatim>\<open>get_random_numbers(n)\<close> bounds no retries and raises no error.
  When \<open>n\<close> exceeds the size \<open>10 ^ 8\<close> of the number space it never returns, whatever values
  of \<open>[0, 10 ^ 8)\<close> the generator draws. Whenever it returns, it returns \<open>n\<close> numbers without
  repetition, each in \<open>[0, 10 ^ 8)\<close>.
\<close>

theorem get_random_numbers_unbounded:
  "(randint_in_range env \<and> 10 ^ 8 < n \<longrightarrow> get_random_numbers env n w = None)
   \<and> (\<forall>numbers w'. get_random_numbers env n w = Some (numbers, w') \<longrightarrow>
        length numbers = n \<and> distinct numbers
        \<and> (randint_in_range env \<longrightarrow> (\<forall>x \<in> set numbers. x < 10 ^ 8)))"
  using get_random_numbers_diverges [of env n w] get_random_numbers_Some [of env n w]
  by blast

lemma get_random_numbers_cycling_3: "get_random_numbers cycling 3 0 = Some ([0, 1, 2], 3)"
  by (simp add: get_random_numbers_def get_random_numbers_loop.simps get_random_number_def
      cycling_def set_add_def NUM_DIGITS_def)

theorem get_random_numbers_unbounded_witness:
  "randint_in_range cycling \<and> (10::nat) ^ 8 < 100000001
   \<and> get_random_numbers cycling 100000001 0 = None
   \<and> get_random_numbers cycling 3 0 = Some ([0, 1, 2], 3)
   \<and> length [0, 1, 2::nat] = 3 \<and> distinct [0, 1, 2::nat]
   \<and> (0::nat) < 10 ^ 8 \<and> (1::nat) < 10 ^ 8 \<and> (2::nat) < 10 ^ 8"
proof -
  have h: "(10::nat) ^ 8 < 100000001"
    by simp
  from get_random_numbers_unbounded [of cycling 100000001 0]
    get_random_numbers_unbounded [of cycling 3 0]
    randint_in_range_cycling h get_random_numbers_cycling_3
  show ?thesis
    by simp
qed

subsection \<open>The outcome of a round\<close>

lemma game_loop_winner:
  assumes "game_loop env n totals pos game_state prev w = Some y"
  shows "(\<forall>p a. prev = Some (p, a) \<longrightarrow> p < n) \<longrightarrow>
     (\<forall>winner_idx game_state' pos' w'. y = Inr (winner_idx, game_state', pos', w') \<longrightarrow>
        winner_idx = - 1 \<or> (0 \<le> winner_idx \<and> winner_idx < int n))"
  using assms
proof (induction env n totals pos game_state prev w y
    rule: game_loop.raw_induct [rotated 1, consumes 1, case_names step])
  case (step loop env n totals pos game_state prev w y)
  show ?case
  proof (cases "n = 0")
    case True
    with step.hyps show ?thesis
      by auto
  next
    case n: False
    obtain elapsed action w' where m: "make_move env (pos mod n) game_state w = ((elapsed, action), w')"
      by (metis prod.exhaust)
    have idx: "pos mod n < n"
      using n by simp
    show ?thesis
    proof (cases "is_bet action")
      case True
      show ?thesis
      proof (cases "ensure_valid_raise action (map_option snd prev)")
        case (Inl err)
        with step.hyps n m True show ?thesis
          by (auto simp: Let_def)
      next
        case (Inr v)
        with step.hyps n m True
        have "loop env n totals (pos + 1) (game_state @ [(pos mod n, elapsed, action)])
            (Some (pos mod n, action)) w' = Some y"
          by (simp add: Let_def)
        from step.IH [OF this] idx show ?thesis
          by simp
      qed
    next
      case False
      show ?thesis
      proof (intro impI allI)
        fix winner_idx game_state' pos' w''
        assume p: "\<forall>p a. prev = Some (p, a) \<longrightarrow> p < n"
          and y: "y = Inr (winner_idx, game_state', pos', w'')"
        from step.hyps n m False y
        have "winner_idx = - 1 \<or> winner_idx = int (pos mod n)
            \<or> (\<exists>p a. prev = Some (p, a) \<and> winner_idx = int p)"
          by (auto simp: Let_def split: option.splits sum.splits if_splits)
        with p idx show "winner_idx = - 1 \<or> (0 \<le> winner_idx \<and> winner_idx < int n)"
          by auto
      qed
    qed
  qed
qed

lemma play_Some_Inr:
  assumes "play env n first_move pos w = Some (Inr r)"
  shows "\<exists>numbers w2 first_idx w3 pos1 winner_idx game_state pos2 w4.
     assign_numbers env n w = Some (numbers, w2)
     \<and> choose_first env n first_move w2 = Inr (first_idx, w3)
     \<and> fast_forward n first_idx pos = Some (Inr pos1)
     \<and> game_loop env n (total_counts numbers) pos1 [] None w3 =
         Some (Inr (winner_idx, game_state, pos2, w4))
     \<and> r = \<lparr>r_winner_idx = winner_idx,
            r_results = map (result_of winner_idx) [0..<n],
            r_game_state = game_state,
            r_numbers = numbers,
            r_first_move = first_move,
            r_first_idx = first_idx,
            r_pos = pos2,
            r_world =
              fold (\<lambda>idx. end_game env idx (result_of winner_idx idx) game_state numbers) [0..<n] w4\<rparr>"
  using assms
  by (auto simp: play_def play_from_def split: option.splits sum.splits prod.splits)

lemma fold_end_game_results:
  "fold (\<lambda>idx. end_game env idx (map (result_of winner_idx) [0..<n] ! idx) game_state numbers) [0..<n] w
   = fold (\<lambda>idx. end_game env idx (result_of winner_idx idx) game_state numbers) [0..<n] w"
  by (rule fold_cong) simp_all

text \<open>
  Claim C5. When a round is completed, that is when \<^verbatim>\<open>play\<close> returns, every player
  \<open>idx\<close> has been notified by \<^verbatim>\<open>end_game\<close> with the result \<open>r_results r ! idx\<close>, after the
  game loop. Either the winner index is \<open>-1\<close> and every player is told Tie (\<open>-1\<close>), or the
  winner index is one player index \<open>k\<close> in \<open>[0, n)\<close>, player \<open>k\<close> is told Win (\<open>1\<close>) and
  every other player is told Loss (\<open>0\<close>).
\<close>

theorem round_outcome:
  assumes "play env n first_move pos w = Some (Inr r)"
  shows "length (r_results r) = n
    \<and> (\<exists>pos1 w3 w4.
          game_loop env n (total_counts (r_numbers r)) pos1 [] None w3 =
            Some (Inr (r_winner_idx r, r_game_state r, r_pos r, w4))
          \<and> r_world r =
            fold (\<lambda>idx. end_game env idx (r_results r ! idx) (r_game_state r) (r_numbers r))
              [0..<n] w4)
    \<and> ((r_winner_idx r = - 1 \<and> (\<forall>i<n. r_results r ! i = - 1))
       \<or> (\<exists>k<n. r_winner_idx r = int k \<and> r_results r ! k = 1
            \<and> (\<forall>i<n. i \<noteq> k \<longrightarrow> r_results r ! i = 0)))"
proof -
  from play_Some_Inr [OF assms]
  obtain numbers w2 first_idx w3 pos1 winner_idx game_state pos2 w4 where
    a: "assign_numbers env n w = Some (numbers, w2)"
    and g: "game_loop env n (total_counts numbers) pos1 [] None w3 =
         Some (Inr (winner_idx, game_state, pos2, w4))"
    and r: "r = \<lparr>r_winner_idx = winner_idx,
            r_results = map (result_of winner_idx) [0..<n],
            r_game_state = game_state,
            r_numbers = numbers,
            r_first_move = first_move,
            r_first_idx = first_idx,
            r_pos = pos2,
            r_world =
              fold (\<lambda>idx. end_game env idx (result_of winner_idx idx) game_state numbers) [0..<n] w4\<rparr>"
    by blast
  have len: "length (r_results r) = n"
    by (simp add: r)
  have notify: "\<exists>pos1 w3 w4.
          game_loop env n (total_counts (r_numbers r)) pos1 [] None w3 =
            Some (Inr (r_winner_idx r, r_game_state r, r_pos r, w4))
          \<and> r_world r =
            fold (\<lambda>idx. end_game env idx (r_results r ! idx) (r_game_state r) (r_numbers r))
              [0..<n] w4"
    using g by (auto simp: r fold_end_game_results)
  from game_loop_winner [OF g]
  have w: "winner_idx = - 1 \<or> (0 \<le> winner_idx \<and> winner_idx < int n)"
    by simp
  have "(r_winner_idx r = - 1 \<and> (\<forall>i<n. r_results r ! i = - 1))
       \<or> (\<exists>k<n. r_winner_idx r = int k \<and> r_results r ! k = 1
            \<and> (\<forall>i<n. i \<noteq> k \<longrightarrow> r_results r ! i = 0))"
  proof (cases "winner_idx = - 1")
    case True
    then show ?thesis
      by (simp add: r result_of_def)
  next
    case False
    with w have k: "nat winner_idx < n" "winner_idx = int (nat winner_idx)"
      by arith+
    have "r_winner_idx r = int (nat winner_idx)"
      using k(2) by (simp add: r)
    moreover have "r_results r ! nat winner_idx = 1"
      using k False by (simp add: r result_of_def)
    moreover have "\<forall>i<n. i \<noteq> nat winner_idx \<longrightarrow> r_results r ! i = 0"
      using k False by (auto simp: r result_of_def)
    ultimately show ?thesis
      using k(1) by blast
  qed
  with len notify show ?thesis
    by blast
qed


lemma make_move_recording:
  "make_move recording idx game_state (draws, m # moves, notes) = ((0, m), (draws, moves, notes))"
  by (simp add: recording_def)

lemma assign_numbers_recording:
  "a \<noteq> b \<Longrightarrow>
     assign_numbers recording 2 ([a, b], moves, notes) = Some ([a, b], ([], moves, notes))"
  by (simp add: assign_numbers_def get_random_numbers_def get_random_numbers_loop.simps
      get_random_number_def recording_def set_add_def upt_rec)

lemma game_loop_tie_example:
  "game_loop recording 2 (total_counts [77700000, 77000000]) 2 [] None ([], [Bet 5 7, Exact], []) =
     Some (Inr (- 1, [(0, 0, Bet 5 7), (1, 0, Exact)], 4, ([], [], [])))"
proof -
  have "game_loop recording 2 (total_counts [77700000, 77000000]) 2 [] None
        ([], [Bet 5 7, Exact], []) =
      game_loop recording 2 (total_counts [77700000, 77000000]) 3 [(0, 0, Bet 5 7)]
        (Some (0, Bet 5 7)) ([], [Exact], [])"
    using game_loop_bet [of 2 recording 2 "[]" "([], [Bet 5 7, Exact], [])" 0 "Bet 5 7"
        "([], [Exact], [])" None "Some True"]
    by (simp add: make_move_recording ensure_valid_raise_def Bet_def)
  also have "\<dots> = Some (Inr (- 1, [(0, 0, Bet 5 7), (1, 0, Exact)], 4, ([], [], [])))"
    using game_loop_exact [of 2 recording 3 "[(0, 0, Bet 5 7)]" "([], [Exact], [])" 0 "([], [], [])" 7
        "[77700000, 77000000]" 0 5]
    by (simp add: make_move_recording total_counts_example)
  finally show ?thesis .
qed

lemma play_tie_example:
  "play recording 2 (Some 0) 0 ([77700000, 77000000], [Bet 5 7, Exact], []) =
     Some (Inr \<lparr>r_winner_idx = - 1, r_results = [- 1, - 1],
       r_game_state = [(0, 0, Bet 5 7), (1, 0, Exact)],
       r_numbers = [77700000, 77000000], r_first_move = Some 0, r_first_idx = 0,
       r_pos = 4, r_world = ([], [], [(0, - 1), (1, - 1)])\<rparr>)"
proof -
  have u: "[0..<2] = [0, 1]"
    by (simp add: upt_rec)
  show ?thesis
    by (simp add: play_def assign_numbers_recording choose_first_def fast_forward_2_0
        play_from_def game_loop_tie_example u result_of_def)
      (simp add: recording_def)
qed

theorem round_outcome_witness:
  "play recording 2 (Some 0) 0 ([77700000, 77000000], [Bet 5 7, Exact], []) =
     Some (Inr \<lparr>r_winner_idx = - 1, r_results = [- 1, - 1],
       r_game_state = [(0, 0, Bet 5 7), (1, 0, Exact)],
       r_numbers = [77700000, 77000000], r_first_move = Some 0, r_first_idx = 0,
       r_pos = 4, r_world = ([], [], [(0, - 1), (1, - 1)])\<rparr>)
   \<and> length [- 1, - 1::int] = 2
   \<and> (\<exists>pos1 w3 w4.
        game_loop recording 2 (total_counts [77700000, 77000000]) pos1 [] None w3 =
          Some (Inr (- 1, [(0, 0, Bet 5 7), (1, 0, Exact)], 4, w4))
        \<and> ([], [], [(0::nat, - 1::int), (1, - 1)]) =
          fold (\<lambda>idx. end_game recording idx ([- 1, - 1] ! idx) [(0, 0, Bet 5 7), (1, 0, Exact)]
            [77700000, 77000000]) [0..<2] w4)"
  using round_outcome [OF play_tie_example] play_tie_example by simp

subsection \<open>Many rounds\<close>











end
